theory Spec2Isabelle
  imports Complex_Main "HOL-Library.Monad_Syntax"
begin

section \<open>objectivex: negative log-likelihood and gradient of a mixture hidden Markov model\<close>

text \<open>
  Embedding of \<^verbatim>\<open>src/objectivex.cpp\<close>.

  \<^item> The number type \<open>'a\<close> stands for \<^verbatim>\<open>double\<close>. The definitions use only the
    syntax of \<open>0\<close>, \<open>1\<close>, \<open>+\<close>, \<open>-\<close>, \<open>*\<close>, \<open>/\<close>; nothing is assumed about them, so
    the structural theorems hold for IEEE doubles as well. The theorems about the
    value of a formula are stated at type \<open>real\<close>, that is for exact arithmetic; the
    overflow of a sum of weights is evaluated at the type \<open>dbl\<close> of the section on doubles.
  \<^item> \<^verbatim>\<open>std::exp\<close>, \<^verbatim>\<open>std::log\<close>, the finiteness test, \<^verbatim>\<open>DBL_MAX\<close> and the two
    forward-backward routines, which are declared in \<^verbatim>\<open>seqHMM.h\<close> and defined
    elsewhere, are parameters (record \<open>extern\<close>).
  \<^item> The arrays are the views that lines 15-21 of the source lay over the caller's
    buffers: a shape and an index function. A view is read through \<open>at2\<close>
    and \<open>at3\<close>, which fail (\<open>None\<close>) outside the shape, as the bounds checks
    of the matrix library do. \<open>None\<close> is a call that does not return a value.
  \<^item> Sizes (dimensions, \<^verbatim>\<open>numberOfStates\<close>, \<^verbatim>\<open>nSymbols\<close>) are natural numbers; the
    masks and the observations are integers, as they may hold any value. The sums of the
    masks and the length of the gradient are taken in 32 bits with the wrap-around
    written out (\<open>sword32\<close>, \<open>uword32\<close>).
\<close>

subsection \<open>Checked reads and loops\<close>

type_synonym 'a vec_fn = "nat \<Rightarrow> 'a"
type_synonym 'a mat_fn = "nat \<Rightarrow> nat \<Rightarrow> 'a"
type_synonym 'a cube_fn = "nat \<Rightarrow> nat \<Rightarrow> nat \<Rightarrow> 'a"

definition at2 :: "nat \<times> nat \<Rightarrow> 'b mat_fn \<Rightarrow> nat \<Rightarrow> nat \<Rightarrow> 'b option" where
  "at2 d m i j = (if i < fst d \<and> j < snd d then Some (m i j) else None)"

definition at3 :: "nat \<times> nat \<times> nat \<Rightarrow> 'b cube_fn \<Rightarrow> nat \<Rightarrow> nat \<Rightarrow> nat \<Rightarrow> 'b option" where
  "at3 d c i j s =
     (if i < fst d \<and> j < fst (snd d) \<and> s < snd (snd d) then Some (c i j s) else None)"

text \<open>A \<^verbatim>\<open>for\<close> loop over the indices \<open>xs\<close> whose body may fail.\<close>

fun for_each :: "'i list \<Rightarrow> ('i \<Rightarrow> 's \<Rightarrow> 's option) \<Rightarrow> 's \<Rightarrow> 's option" where
  "for_each [] body s = Some s"
| "for_each (x # xs) body s =
     (case body x s of None \<Rightarrow> None | Some s' \<Rightarrow> for_each xs body s')"

text \<open>\<^verbatim>\<open>accu\<close>, \<^verbatim>\<open>sum\<close> and \<^verbatim>\<open>dot\<close>: accumulation of \<open>f 0, ..., f (n - 1)\<close>.\<close>

definition accu :: "nat \<Rightarrow> (nat \<Rightarrow> 'a::{zero,plus}) \<Rightarrow> 'a" where
  "accu n f = foldl (\<lambda>acc i. acc + f i) 0 [0..<n]"

text \<open>\<^verbatim>\<open>arma::find\<close>: the positions of the nonzero entries among \<open>f 0, ..., f (n - 1)\<close>.\<close>

definition find_nz :: "nat \<Rightarrow> (nat \<Rightarrow> int) \<Rightarrow> nat list" where
  "find_nz n f = filter (\<lambda>j. f j \<noteq> 0) [0..<n]"

text \<open>\<^verbatim>\<open>v(j) += x\<close> on a vector held as a list.\<close>

definition add_at :: "'a::plus list \<Rightarrow> nat \<Rightarrow> 'a \<Rightarrow> 'a list option" where
  "add_at v j x = (if j < length v then Some (v[j := v ! j + x]) else None)"

text \<open>\<^verbatim>\<open>v.rows(ind)\<close>: the entries of \<open>v\<close> at the positions \<open>ind\<close>.\<close>

definition rows :: "'b list \<Rightarrow> nat list \<Rightarrow> 'b list option" where
  "rows v ind = (if list_all (\<lambda>j. j < length v) ind then Some (map (\<lambda>j. v ! j) ind) else None)"

text \<open>\<^verbatim>\<open>grad.subvec(c, c + n - 1) = vs\<close> with \<open>n = length vs > 0\<close>.\<close>

definition write_subvec :: "'b list \<Rightarrow> nat \<Rightarrow> 'b list \<Rightarrow> 'b list option" where
  "write_subvec grad c vs =
     (if vs \<noteq> [] \<and> c + length vs \<le> length grad
      then Some (take c grad @ vs @ drop (c + length vs) grad) else None)"

text \<open>
  The matrix built by \<^verbatim>\<open>G.eye(); G.each_row() -= p; G.each_col() %= p.t()\<close>, and the
  product \<^verbatim>\<open>G * v\<close> for an \<open>n \<times> n\<close> matrix.
\<close>

definition simplex_jac :: "(nat \<Rightarrow> 'a::{zero,one,minus,times}) \<Rightarrow> nat \<Rightarrow> nat \<Rightarrow> 'a" where
  "simplex_jac p a b = ((if a = b then 1 else 0) - p b) * p a"

definition mat_vec :: "nat \<Rightarrow> (nat \<Rightarrow> nat \<Rightarrow> 'a::{zero,plus,times}) \<Rightarrow> 'a list \<Rightarrow> 'a list" where
  "mat_vec n G v = map (\<lambda>a. accu n (\<lambda>b. G a b * v ! b)) [0..<n]"

subsection \<open>Inputs and external routines\<close>

record 'a input =
  eDims :: "nat \<times> nat \<times> nat"
  oDims :: "nat \<times> nat \<times> nat"
  transitionMatrix :: "'a mat_fn"
  emissionArray :: "'a cube_fn"
  initialProbs :: "'a vec_fn"
  obsArray :: "int cube_fn"
  transNZ :: "int mat_fn"
  emissNZ :: "int cube_fn"
  initNZ :: "int vec_fn"
  nSymbols :: "nat \<Rightarrow> nat"
  coefs_nrow :: nat
  coefs :: "'a mat_fn"
  X_in :: "'a mat_fn"
  numberOfStates :: "nat list"

record 'a extern =
  exp_d :: "'a \<Rightarrow> 'a"
  log_d :: "'a \<Rightarrow> 'a"
  is_finite_d :: "'a \<Rightarrow> bool"
  DBL_MAX :: 'a
  internalForwardx :: "nat \<times> nat \<times> nat \<Rightarrow> nat \<times> nat \<times> nat \<Rightarrow> 'a mat_fn \<Rightarrow> 'a cube_fn \<Rightarrow>
     'a mat_fn \<Rightarrow> int cube_fn \<Rightarrow> ('a cube_fn \<times> 'a mat_fn) option"
  internalBackward :: "nat \<times> nat \<times> nat \<Rightarrow> nat \<times> nat \<times> nat \<Rightarrow> 'a mat_fn \<Rightarrow> 'a cube_fn \<Rightarrow>
     int cube_fn \<Rightarrow> 'a mat_fn \<Rightarrow> 'a cube_fn option"

text \<open>The dimensions: \<open>M\<close> states, \<open>P\<close> symbol columns, \<open>R\<close> channels of the emission
  array; \<open>K\<close> subjects, \<open>N\<close> time steps and \<open>Ro\<close> channels of the observations; \<open>J\<close>
  blocks; \<open>q\<close> covariates.\<close>

definition dM :: "'a input \<Rightarrow> nat" where "dM inp = fst (eDims inp)"
definition dP :: "'a input \<Rightarrow> nat" where "dP inp = fst (snd (eDims inp))"
definition dR :: "'a input \<Rightarrow> nat" where "dR inp = snd (snd (eDims inp))"
definition dK :: "'a input \<Rightarrow> nat" where "dK inp = fst (oDims inp)"
definition dN :: "'a input \<Rightarrow> nat" where "dN inp = fst (snd (oDims inp))"
definition dRo :: "'a input \<Rightarrow> nat" where "dRo inp = snd (snd (oDims inp))"
definition dJ :: "'a input \<Rightarrow> nat" where "dJ inp = length (numberOfStates inp)"

text \<open>\<^verbatim>\<open>cumsum(numberOfStates)\<close>, and the first state
  \<^verbatim>\<open>cumsumstate(jj) - numberOfStates(jj)\<close> of block \<open>jj\<close>.\<close>

definition cumsumstate :: "nat list \<Rightarrow> nat \<Rightarrow> nat" where
  "cumsumstate ns jj = sum_list (take (Suc jj) ns)"

definition block_start :: "nat list \<Rightarrow> nat \<Rightarrow> nat" where
  "block_start ns jj = cumsumstate ns jj - ns ! jj"

text \<open>The masks are views of 32-bit \<^verbatim>\<open>int\<close> (the type \<^verbatim>\<open>sword\<close> of the matrix library,
  which the views of lines 19-21 lay over the caller's \<^verbatim>\<open>int\<close> buffers), and sizes are
  32-bit unsigned (\<^verbatim>\<open>uword\<close>). \<open>sword32 x\<close> is the value of the 32-bit signed integer
  that the integer \<open>x\<close> wraps around to, \<open>uword32 x\<close> that of the unsigned one.\<close>

definition sword32 :: "int \<Rightarrow> int" where
  "sword32 x = (x + 2 ^ 31) mod 2 ^ 32 - 2 ^ 31"

definition uword32 :: "int \<Rightarrow> nat" where
  "uword32 x = nat (x mod 2 ^ 32)"

text \<open>The sums of the three masks, as line 26 and the guards of lines 56, 87 and 131 take
  them: \<^verbatim>\<open>ANZ\<close> is \<open>M \<times> M\<close>, \<^verbatim>\<open>BNZ\<close> is \<open>M \<times> (P - 1) \<times> R\<close>, \<^verbatim>\<open>INZ\<close> has length
  \<open>M\<close>. \<^verbatim>\<open>arma::accu\<close> adds the entries in the type of the entries, so the sum wraps
  around; modulo \<open>2 ^ 32\<close> the order of the additions does not matter.\<close>

definition accu_ANZ :: "'a input \<Rightarrow> int" where
  "accu_ANZ inp = sword32 (accu (dM inp) (\<lambda>j. accu (dM inp) (\<lambda>i. transNZ inp i j)))"

definition accu_BNZ :: "'a input \<Rightarrow> int" where
  "accu_BNZ inp = sword32
     (accu (dR inp) (\<lambda>r. accu (dP inp - 1) (\<lambda>j. accu (dM inp) (\<lambda>i. emissNZ inp i j r))))"

definition accu_INZ :: "'a input \<Rightarrow> int" where
  "accu_INZ inp = sword32 (accu (dM inp) (initNZ inp))"

text \<open>The length of the gradient vector (line 26): the three sums are added as 32-bit
  \<^verbatim>\<open>int\<close>, the product \<^verbatim>\<open>(numberOfStates.size()-1)*q\<close> is added in the wider signed type
  of \<^verbatim>\<open>size()\<close>, and the result is converted to the 32-bit unsigned size of the vector.
  A negative value becomes a large size in this way; memory is not modelled as bounded,
  so the allocation itself does not fail.\<close>

definition grad_size :: "'a input \<Rightarrow> nat" where
  "grad_size inp =
     uword32 (sword32 (sword32 (accu_ANZ inp + accu_BNZ inp) + accu_INZ inp)
       + (int (dJ inp) - 1) * int (coefs_nrow inp))"

subsection \<open>Mixture weights and initial vectors (lines 27-41)\<close>

text \<open>The local copy of the \<open>q \<times> J\<close> coefficients with column 0 set to zero.\<close>

definition coef :: "'a::zero input \<Rightarrow> 'a mat_fn" where
  "coef inp i j =
     (if j = 0 then 0 else if i < coefs_nrow inp \<and> j < dJ inp then coefs inp i j else 0)"

definition X_coef :: "'a::{zero,plus,times} input \<Rightarrow> nat \<Rightarrow> nat \<Rightarrow> 'a" where
  "X_coef inp k j = accu (coefs_nrow inp) (\<lambda>l. X_in inp k l * coef inp l j)"

text \<open>\<^verbatim>\<open>exp(X*coef).t()\<close>: a \<open>J \<times> K\<close> matrix.\<close>

definition exp_weights :: "'a::{zero,plus,times} extern \<Rightarrow> 'a input \<Rightarrow> 'a mat_fn" where
  "exp_weights ext inp j k = exp_d ext (X_coef inp k j)"

definition weights_finite :: "'a::{zero,plus,times} extern \<Rightarrow> 'a input \<Rightarrow> bool" where
  "weights_finite ext inp =
     list_all (\<lambda>k. list_all (\<lambda>j. is_finite_d ext (exp_weights ext inp j k)) [0..<dJ inp])
       [0..<dK inp]"

text \<open>\<^verbatim>\<open>lweights.each_row() /= sum(lweights,0)\<close>.\<close>

definition lweights :: "'a::{zero,plus,times,inverse} extern \<Rightarrow> 'a input \<Rightarrow> 'a mat_fn" where
  "lweights ext inp j k =
     exp_weights ext inp j k / accu (dJ inp) (\<lambda>j'. exp_weights ext inp j' k)"

text \<open>Modelled from the spec: \<^verbatim>\<open>reparma\<close>, declared in \<^verbatim>\<open>seqHMM.h\<close> and defined outside
  this file, is the block-broadcast of a vector of \<open>J\<close> weights: the weight of block \<open>j\<close>
  repeated once for each state of block \<open>j\<close>.\<close>

definition reparma :: "(nat \<Rightarrow> 'b) \<Rightarrow> nat list \<Rightarrow> 'b list" where
  "reparma x ns = concat (map (\<lambda>j. replicate (ns ! j) (x j)) [0..<length ns])"

definition initk :: "'a::{zero,plus,times,inverse} extern \<Rightarrow> 'a input \<Rightarrow> 'a mat_fn" where
  "initk ext inp s k =
     initialProbs inp s * reparma (\<lambda>j. lweights ext inp j k) (numberOfStates inp) ! s"

subsection \<open>Reads of the model arrays\<close>

text \<open>\<^verbatim>\<open>emission(i, v, r)\<close> where the symbol \<open>v\<close> is an observation: a negative \<open>v\<close> is
  out of bounds.\<close>

definition emission_at :: "'a input \<Rightarrow> nat \<Rightarrow> int \<Rightarrow> nat \<Rightarrow> 'a option" where
  "emission_at inp i v r =
     (if v < 0 then None else at3 (eDims inp) (emissionArray inp) i (nat v) r)"

definition obs_at :: "'a input \<Rightarrow> nat \<Rightarrow> nat \<Rightarrow> nat \<Rightarrow> int option" where
  "obs_at inp k t r = at3 (oDims inp) (obsArray inp) k t r"

text \<open>The loop \<^verbatim>\<open>tmp = 1.0; for r: tmp *= emission(i, obs(k,t,r), r)\<close> over the
  channels \<open>r\<close> that \<open>keep\<close> admits (all of them, or all but one).\<close>

definition emission_prod ::
  "'a::{one,times} input \<Rightarrow> (nat \<Rightarrow> bool) \<Rightarrow> nat \<Rightarrow> nat \<Rightarrow> nat \<Rightarrow> 'a option" where
  "emission_prod inp keep i k t =
     for_each [0..<dRo inp]
       (\<lambda>r tmp. if keep r
          then do { v \<leftarrow> obs_at inp k t r; e \<leftarrow> emission_at inp i v r; Some (tmp * e) }
          else Some tmp)
       1"

text \<open>The forward and backward arrays have the shapes of lines 43-45.\<close>

definition aDims :: "'a input \<Rightarrow> nat \<times> nat \<times> nat" where
  "aDims inp = (dM inp, dN inp, dK inp)"

definition sDims :: "'a input \<Rightarrow> nat \<times> nat" where
  "sDims inp = (dN inp, dK inp)"

subsection \<open>Transition part of the gradient (lines 56-86)\<close>

definition gradArow_loop ::
  "'a::{zero,one,plus,times,inverse} input \<Rightarrow> 'a cube_fn \<Rightarrow> 'a cube_fn \<Rightarrow> 'a mat_fn \<Rightarrow>
     nat \<Rightarrow> nat \<Rightarrow> 'a list option" where
  "gradArow_loop inp alpha beta scales jj i =
     (let ns = numberOfStates inp; s0 = block_start ns jj in
      for_each [0..<dK inp] (\<lambda>k.
        for_each [0..<dN inp - 1] (\<lambda>t.
          for_each [0..<ns ! jj] (\<lambda>j gradArow. do {
            tmp \<leftarrow> emission_prod inp (\<lambda>r. True) (s0 + j) k (t + 1);
            a \<leftarrow> at3 (aDims inp) alpha (s0 + i) t k;
            b \<leftarrow> at3 (aDims inp) beta (s0 + j) (t + 1) k;
            s \<leftarrow> at2 (sDims inp) scales (t + 1) k;
            add_at gradArow j (a * tmp * b / s) })))
        (replicate (ns ! jj) 0))"

definition transition_row ::
  "'a::{zero,one,plus,minus,times,inverse} input \<Rightarrow> 'a cube_fn \<Rightarrow> 'a cube_fn \<Rightarrow> 'a mat_fn \<Rightarrow>
     nat \<Rightarrow> nat \<Rightarrow> 'a list \<times> nat \<Rightarrow> ('a list \<times> nat) option" where
  "transition_row inp alpha beta scales jj i st =
     (let ns = numberOfStates inp; s0 = block_start ns jj in
      if \<not> cumsumstate ns jj \<le> dM inp then None
      else
        let ind = find_nz (ns ! jj) (\<lambda>j. transNZ inp (s0 + i) (s0 + j)) in
        if ind \<noteq> [] then do {
          gradArow \<leftarrow> gradArow_loop inp alpha beta scales jj i;
          vs \<leftarrow> rows (mat_vec (ns ! jj)
                  (simplex_jac (\<lambda>j. transitionMatrix inp (s0 + i) (s0 + j))) gradArow) ind;
          grad \<leftarrow> write_subvec (fst st) (snd st) vs;
          Some (grad, snd st + length ind) }
        else Some st)"

definition transition_pass ::
  "'a::{zero,one,plus,minus,times,inverse} input \<Rightarrow> 'a cube_fn \<Rightarrow> 'a cube_fn \<Rightarrow> 'a mat_fn \<Rightarrow>
     'a list \<times> nat \<Rightarrow> ('a list \<times> nat) option" where
  "transition_pass inp alpha beta scales st =
     (if 0 < accu_ANZ inp
      then for_each [0..<dJ inp] (\<lambda>jj.
             for_each [0..<numberOfStates inp ! jj] (transition_row inp alpha beta scales jj)) st
      else Some st)"

subsection \<open>Emission part of the gradient (lines 87-130)\<close>

text \<open>\<^verbatim>\<open>arma::dot(alpha.slice(k).col(t), transition.col(i))\<close>; \<open>k\<close>, \<open>t\<close> and \<open>i\<close> are in
  range where it is called.\<close>

definition alpha_dot :: "'a::{zero,plus,times} input \<Rightarrow> 'a cube_fn \<Rightarrow> nat \<Rightarrow> nat \<Rightarrow> nat \<Rightarrow> 'a" where
  "alpha_dot inp alpha k t i = accu (dM inp) (\<lambda>s. alpha s t k * transitionMatrix inp s i)"

definition gradBrow_first ::
  "'a::{zero,one,plus,times,inverse} extern \<Rightarrow> 'a input \<Rightarrow> 'a cube_fn \<Rightarrow> 'a mat_fn \<Rightarrow>
     nat \<Rightarrow> nat \<Rightarrow> nat \<Rightarrow> nat \<Rightarrow> 'a list \<Rightarrow> 'a list option" where
  "gradBrow_first ext inp beta scales r i j k gradBrow = do {
     v \<leftarrow> obs_at inp k 0 r;
     if v = int j then do {
       tmp \<leftarrow> emission_prod inp (\<lambda>r2. r2 \<noteq> r) i k 0;
       ik \<leftarrow> at2 (dM inp, dK inp) (initk ext inp) i k;
       b \<leftarrow> at3 (aDims inp) beta i 0 k;
       s \<leftarrow> at2 (sDims inp) scales 0 k;
       add_at gradBrow j (ik * tmp * b / s) }
     else Some gradBrow }"

definition gradBrow_later ::
  "'a::{zero,one,plus,times,inverse} input \<Rightarrow> 'a cube_fn \<Rightarrow> 'a cube_fn \<Rightarrow> 'a mat_fn \<Rightarrow>
     nat \<Rightarrow> nat \<Rightarrow> nat \<Rightarrow> nat \<Rightarrow> nat \<Rightarrow> 'a list \<Rightarrow> 'a list option" where
  "gradBrow_later inp alpha beta scales r i j k t gradBrow = do {
     v \<leftarrow> obs_at inp k (t + 1) r;
     if v = int j then do {
       tmp \<leftarrow> emission_prod inp (\<lambda>r2. r2 \<noteq> r) i k (t + 1);
       b \<leftarrow> at3 (aDims inp) beta i (t + 1) k;
       s \<leftarrow> at2 (sDims inp) scales (t + 1) k;
       add_at gradBrow j (alpha_dot inp alpha k t i * tmp * b / s) }
     else Some gradBrow }"

definition gradBrow_loop ::
  "'a::{zero,one,plus,times,inverse} extern \<Rightarrow> 'a input \<Rightarrow> 'a cube_fn \<Rightarrow> 'a cube_fn \<Rightarrow>
     'a mat_fn \<Rightarrow> nat \<Rightarrow> nat \<Rightarrow> 'a list option" where
  "gradBrow_loop ext inp alpha beta scales r i =
     for_each [0..<nSymbols inp r] (\<lambda>j.
       for_each [0..<dK inp] (\<lambda>k gradBrow. do {
         g \<leftarrow> gradBrow_first ext inp beta scales r i j k gradBrow;
         for_each [0..<dN inp - 1] (gradBrow_later inp alpha beta scales r i j k) g }))
       (replicate (nSymbols inp r) 0)"

definition emission_row ::
  "'a::{zero,one,plus,minus,times,inverse} extern \<Rightarrow> 'a input \<Rightarrow> 'a cube_fn \<Rightarrow> 'a cube_fn \<Rightarrow>
     'a mat_fn \<Rightarrow> nat \<Rightarrow> nat \<Rightarrow> 'a list \<times> nat \<Rightarrow> ('a list \<times> nat) option" where
  "emission_row ext inp alpha beta scales r i st =
     (if \<not> r < dR inp then None
      else
        let ind = find_nz (dP inp - 1) (\<lambda>j. emissNZ inp i j r) in
        if ind \<noteq> [] then
          if \<not> (1 \<le> nSymbols inp r \<and> nSymbols inp r \<le> dP inp) then None
          else do {
            gradBrow \<leftarrow> gradBrow_loop ext inp alpha beta scales r i;
            vs \<leftarrow> rows (mat_vec (nSymbols inp r)
                    (simplex_jac (\<lambda>j. emissionArray inp i j r)) gradBrow) ind;
            grad \<leftarrow> write_subvec (fst st) (snd st) vs;
            Some (grad, snd st + length ind) }
        else Some st)"

definition emission_pass ::
  "'a::{zero,one,plus,minus,times,inverse} extern \<Rightarrow> 'a input \<Rightarrow> 'a cube_fn \<Rightarrow> 'a cube_fn \<Rightarrow>
     'a mat_fn \<Rightarrow> 'a list \<times> nat \<Rightarrow> ('a list \<times> nat) option" where
  "emission_pass ext inp alpha beta scales st =
     (if 0 < accu_BNZ inp
      then for_each [0..<dRo inp] (\<lambda>r.
             for_each [0..<dM inp] (emission_row ext inp alpha beta scales r)) st
      else Some st)"

subsection \<open>Initial part of the gradient (lines 131-154)\<close>

definition gradIrow_loop ::
  "'a::{zero,one,plus,times,inverse} extern \<Rightarrow> 'a input \<Rightarrow> 'a cube_fn \<Rightarrow> 'a mat_fn \<Rightarrow>
     nat \<Rightarrow> 'a list option" where
  "gradIrow_loop ext inp beta scales i =
     (let ns = numberOfStates inp; s0 = block_start ns i in
      for_each [0..<ns ! i] (\<lambda>j.
        for_each [0..<dK inp] (\<lambda>k gradIrow. do {
          tmp \<leftarrow> emission_prod inp (\<lambda>r. True) (s0 + j) k 0;
          b \<leftarrow> at3 (aDims inp) beta (s0 + j) 0 k;
          s \<leftarrow> at2 (sDims inp) scales 0 k;
          w \<leftarrow> at2 (dJ inp, dK inp) (lweights ext inp) i k;
          add_at gradIrow j (tmp * b / s * w) }))
        (replicate (ns ! i) 0))"

definition initial_block ::
  "'a::{zero,one,plus,minus,times,inverse} extern \<Rightarrow> 'a input \<Rightarrow> 'a cube_fn \<Rightarrow> 'a mat_fn \<Rightarrow>
     nat \<Rightarrow> 'a list \<times> nat \<Rightarrow> ('a list \<times> nat) option" where
  "initial_block ext inp beta scales i st =
     (let ns = numberOfStates inp; s0 = block_start ns i in
      if \<not> (1 \<le> ns ! i \<and> cumsumstate ns i \<le> dM inp) then None
      else
        let ind = find_nz (ns ! i) (\<lambda>j. initNZ inp (s0 + j)) in
        if ind \<noteq> [] then do {
          gradIrow \<leftarrow> gradIrow_loop ext inp beta scales i;
          vs \<leftarrow> rows (mat_vec (ns ! i)
                  (simplex_jac (\<lambda>j. initialProbs inp (s0 + j))) gradIrow) ind;
          grad \<leftarrow> write_subvec (fst st) (snd st) vs;
          Some (grad, snd st + length ind) }
        else Some st)"

definition initial_pass ::
  "'a::{zero,one,plus,minus,times,inverse} extern \<Rightarrow> 'a input \<Rightarrow> 'a cube_fn \<Rightarrow> 'a mat_fn \<Rightarrow>
     'a list \<times> nat \<Rightarrow> ('a list \<times> nat) option" where
  "initial_pass ext inp beta scales st =
     (if 0 < accu_INZ inp
      then for_each [0..<dJ inp] (initial_block ext inp beta scales) st
      else Some st)"

subsection \<open>Mixture-coefficient part of the gradient (lines 156-172)\<close>

text \<open>\<^verbatim>\<open>grad.subvec(a, a + q - 1) += v\<close> and \<^verbatim>\<open>-= v\<close> for a vector \<open>v\<close> of length \<open>q\<close>.\<close>

definition add_subvec :: "'a::plus list \<Rightarrow> nat \<Rightarrow> nat \<Rightarrow> (nat \<Rightarrow> 'a) \<Rightarrow> 'a list option" where
  "add_subvec grad a q v =
     (if 1 \<le> q \<and> a + q \<le> length grad
      then Some (take a grad @ map (\<lambda>l. grad ! (a + l) + v l) [0..<q] @ drop (a + q) grad)
      else None)"

definition sub_subvec :: "'a::minus list \<Rightarrow> nat \<Rightarrow> nat \<Rightarrow> (nat \<Rightarrow> 'a) \<Rightarrow> 'a list option" where
  "sub_subvec grad a q v =
     (if 1 \<le> q \<and> a + q \<le> length grad
      then Some (take a grad @ map (\<lambda>l. grad ! (a + l) - v l) [0..<q] @ drop (a + q) grad)
      else None)"

definition mixture_step ::
  "'a::{zero,one,plus,minus,times,inverse} extern \<Rightarrow> 'a input \<Rightarrow> 'a cube_fn \<Rightarrow> 'a mat_fn \<Rightarrow>
     nat \<Rightarrow> nat \<Rightarrow> nat \<Rightarrow> nat \<Rightarrow> 'a list \<Rightarrow> 'a list option" where
  "mixture_step ext inp beta scales countgrad jj k j grad =
     (let ns = numberOfStates inp; q = coefs_nrow inp in do {
        tmp \<leftarrow> emission_prod inp (\<lambda>r. True) j k 0;
        b \<leftarrow> at3 (aDims inp) beta j 0 k;
        s \<leftarrow> at2 (sDims inp) scales 0 k;
        ik \<leftarrow> at2 (dM inp, dK inp) (initk ext inp) j k;
        w \<leftarrow> at2 (dJ inp, dK inp) (lweights ext inp) jj k;
        if block_start ns jj \<le> j \<and> j < cumsumstate ns jj
        then add_subvec grad (countgrad + q * (jj - 1)) q
               (\<lambda>l. tmp * b / s * ik * X_in inp k l * (1 - w))
        else sub_subvec grad (countgrad + q * (jj - 1)) q
               (\<lambda>l. tmp * b / s * ik * X_in inp k l * w) })"

definition mixture_pass ::
  "'a::{zero,one,plus,minus,times,inverse} extern \<Rightarrow> 'a input \<Rightarrow> 'a cube_fn \<Rightarrow> 'a mat_fn \<Rightarrow>
     'a list \<times> nat \<Rightarrow> 'a list option" where
  "mixture_pass ext inp beta scales st =
     for_each [1..<dJ inp] (\<lambda>jj.
       for_each [0..<dK inp] (\<lambda>k.
         for_each [0..<dM inp] (mixture_step ext inp beta scales (snd st) jj k)))
       (fst st)"

subsection \<open>The exported function\<close>

text \<open>\<^verbatim>\<open>arma::sum(log(scales))\<close>: for each subject the sum over the time steps.\<close>

definition ll :: "'a::{zero,plus} extern \<Rightarrow> 'a input \<Rightarrow> 'a mat_fn \<Rightarrow> nat \<Rightarrow> 'a" where
  "ll ext inp scales k = accu (dN inp) (\<lambda>t. log_d ext (scales t k))"

text \<open>
  The result is the pair (objective, gradient). The call does not return when there is
  no block (column 0 of the coefficients does not exist), when the weights of a subject and the initial
  probabilities differ in length, when a routine or a read fails. With \<open>P = 0\<close> the mask
  view of line 20 would have \<open>-1\<close> columns; such a call is taken not to return.
\<close>

definition objectivex ::
  "'a::{zero,one,plus,minus,uminus,times,inverse} extern \<Rightarrow> 'a input \<Rightarrow> ('a \<times> 'a list) option" where
  "objectivex ext inp =
     (if dP inp = 0 \<or> dJ inp = 0 then None
      else if \<not> weights_finite ext inp
        then Some (DBL_MAX ext, replicate (grad_size inp) (- DBL_MAX ext))
      else if 0 < dK inp \<and> sum_list (numberOfStates inp) \<noteq> dM inp then None
      else do {
        (alpha, scales) \<leftarrow> internalForwardx ext (eDims inp) (oDims inp) (transitionMatrix inp)
           (emissionArray inp) (initk ext inp) (obsArray inp);
        beta \<leftarrow> internalBackward ext (eDims inp) (oDims inp) (transitionMatrix inp)
           (emissionArray inp) (obsArray inp) scales;
        st1 \<leftarrow> transition_pass inp alpha beta scales (replicate (grad_size inp) 0, 0);
        st2 \<leftarrow> emission_pass ext inp alpha beta scales st1;
        st3 \<leftarrow> initial_pass ext inp beta scales st2;
        grad \<leftarrow> mixture_pass ext inp beta scales st3;
        Some (- accu (dK inp) (ll ext inp scales), map uminus grad) })"

section \<open>The gradient as the specification words it\<close>

text \<open>
  The definitions of this section follow the sentences of the specification, in exact
  arithmetic; the theorems below compare them with \<open>objectivex\<close>. A symbol is the
  observation read as an index.
\<close>

text \<open>``Product of channel emissions'' of state \<open>i\<close> for the observation of subject \<open>k\<close> at
  time \<open>t\<close>, over all channels and over the channels other than \<open>r\<close>.\<close>

definition all_channels_product :: "real input \<Rightarrow> nat \<Rightarrow> nat \<Rightarrow> nat \<Rightarrow> real" where
  "all_channels_product inp i k t =
     (\<Prod>r<dRo inp. emissionArray inp i (nat (obsArray inp k t r)) r)"

definition other_channels_product :: "real input \<Rightarrow> nat \<Rightarrow> nat \<Rightarrow> nat \<Rightarrow> nat \<Rightarrow> real" where
  "other_channels_product inp r i k t =
     (\<Prod>r2\<in>{..<dRo inp} - {r}. emissionArray inp i (nat (obsArray inp k t r2)) r2)"

text \<open>The simplex Jacobian \<open>diag(p) - p p\<^sup>T\<close> of a row \<open>p\<close> of length \<open>n\<close>, and its product
  with a vector.\<close>

definition spec_jacobian :: "(nat \<Rightarrow> real) \<Rightarrow> nat \<Rightarrow> nat \<Rightarrow> real" where
  "spec_jacobian p a b = (if a = b then p a else 0) - p a * p b"

definition spec_jacobian_times :: "nat \<Rightarrow> (nat \<Rightarrow> real) \<Rightarrow> (nat \<Rightarrow> real) \<Rightarrow> nat \<Rightarrow> real" where
  "spec_jacobian_times n p v a = (\<Sum>b<n. spec_jacobian p a b * v b)"

text \<open>Transition part: block \<open>jj\<close>, source state \<open>i\<close> and destination state \<open>j\<close> of the
  block.\<close>

definition spec_transition_raw ::
  "real input \<Rightarrow> real cube_fn \<Rightarrow> real cube_fn \<Rightarrow> real mat_fn \<Rightarrow> nat \<Rightarrow> nat \<Rightarrow> nat \<Rightarrow> real" where
  "spec_transition_raw inp alpha beta scales jj i j =
     (let s0 = block_start (numberOfStates inp) jj in
      \<Sum>k<dK inp. \<Sum>t<dN inp - 1.
        alpha (s0 + i) t k * all_channels_product inp (s0 + j) k (t + 1)
          * beta (s0 + j) (t + 1) k / scales (t + 1) k)"

definition spec_transition_row ::
  "real input \<Rightarrow> real cube_fn \<Rightarrow> real cube_fn \<Rightarrow> real mat_fn \<Rightarrow> nat \<Rightarrow> nat \<Rightarrow> real list" where
  "spec_transition_row inp alpha beta scales jj i =
     (let ns = numberOfStates inp; s0 = block_start ns jj in
      map (spec_jacobian_times (ns ! jj) (\<lambda>j. transitionMatrix inp (s0 + i) (s0 + j))
             (spec_transition_raw inp alpha beta scales jj i))
        (filter (\<lambda>j. transNZ inp (s0 + i) (s0 + j) \<noteq> 0) [0..<ns ! jj]))"

definition spec_transition_segment ::
  "real input \<Rightarrow> real cube_fn \<Rightarrow> real cube_fn \<Rightarrow> real mat_fn \<Rightarrow> real list" where
  "spec_transition_segment inp alpha beta scales =
     concat (map (\<lambda>jj. concat (map (spec_transition_row inp alpha beta scales jj)
                                   [0..<numberOfStates inp ! jj]))
               [0..<dJ inp])"

text \<open>Emission part: channel \<open>r\<close>, state \<open>i\<close>, symbol \<open>v\<close>.\<close>

definition spec_emission_raw ::
  "real extern \<Rightarrow> real input \<Rightarrow> real cube_fn \<Rightarrow> real cube_fn \<Rightarrow> real mat_fn \<Rightarrow>
     nat \<Rightarrow> nat \<Rightarrow> nat \<Rightarrow> real" where
  "spec_emission_raw ext inp alpha beta scales r i v =
     (\<Sum>k<dK inp. \<Sum>t<dN inp.
        if obsArray inp k t r = int v
        then (if t = 0 then initk ext inp i k
              else (\<Sum>s<dM inp. alpha s (t - 1) k * transitionMatrix inp s i))
             * other_channels_product inp r i k t * beta i t k / scales t k
        else 0)"

definition spec_emission_row ::
  "real extern \<Rightarrow> real input \<Rightarrow> real cube_fn \<Rightarrow> real cube_fn \<Rightarrow> real mat_fn \<Rightarrow>
     nat \<Rightarrow> nat \<Rightarrow> real list" where
  "spec_emission_row ext inp alpha beta scales r i =
     map (spec_jacobian_times (nSymbols inp r) (\<lambda>v. emissionArray inp i v r)
            (spec_emission_raw ext inp alpha beta scales r i))
       (filter (\<lambda>v. emissNZ inp i v r \<noteq> 0) [0..<dP inp - 1])"

definition spec_emission_segment ::
  "real extern \<Rightarrow> real input \<Rightarrow> real cube_fn \<Rightarrow> real cube_fn \<Rightarrow> real mat_fn \<Rightarrow> real list" where
  "spec_emission_segment ext inp alpha beta scales =
     concat (map (\<lambda>r. concat (map (spec_emission_row ext inp alpha beta scales r) [0..<dM inp]))
               [0..<dRo inp])"

text \<open>Initial part: block \<open>i\<close> and state \<open>j\<close> of the block.\<close>

definition spec_initial_raw ::
  "real extern \<Rightarrow> real input \<Rightarrow> real cube_fn \<Rightarrow> real mat_fn \<Rightarrow> nat \<Rightarrow> nat \<Rightarrow> real" where
  "spec_initial_raw ext inp beta scales i j =
     (let s0 = block_start (numberOfStates inp) i in
      \<Sum>k<dK inp. all_channels_product inp (s0 + j) k 0 * beta (s0 + j) 0 k / scales 0 k
                   * lweights ext inp i k)"

definition spec_initial_block ::
  "real extern \<Rightarrow> real input \<Rightarrow> real cube_fn \<Rightarrow> real mat_fn \<Rightarrow> nat \<Rightarrow> real list" where
  "spec_initial_block ext inp beta scales i =
     (let ns = numberOfStates inp; s0 = block_start ns i in
      map (spec_jacobian_times (ns ! i) (\<lambda>j. initialProbs inp (s0 + j))
             (spec_initial_raw ext inp beta scales i))
        (filter (\<lambda>j. initNZ inp (s0 + j) \<noteq> 0) [0..<ns ! i]))"

definition spec_initial_segment ::
  "real extern \<Rightarrow> real input \<Rightarrow> real cube_fn \<Rightarrow> real mat_fn \<Rightarrow> real list" where
  "spec_initial_segment ext inp beta scales =
     concat (map (spec_initial_block ext inp beta scales) [0..<dJ inp])"

text \<open>Mixture-coefficient part: non-reference block \<open>jj\<close> and covariate \<open>l\<close>.\<close>

definition spec_mixture_entry ::
  "real extern \<Rightarrow> real input \<Rightarrow> real cube_fn \<Rightarrow> real mat_fn \<Rightarrow> nat \<Rightarrow> nat \<Rightarrow> real" where
  "spec_mixture_entry ext inp beta scales jj l =
     (let ns = numberOfStates inp in
      \<Sum>k<dK inp. \<Sum>s<dM inp.
        all_channels_product inp s k 0 * beta s 0 k / scales 0 k * initk ext inp s k
          * X_in inp k l
          * (if block_start ns jj \<le> s \<and> s < cumsumstate ns jj
             then 1 - lweights ext inp jj k else - lweights ext inp jj k))"

definition spec_mixture_segment ::
  "real extern \<Rightarrow> real input \<Rightarrow> real cube_fn \<Rightarrow> real mat_fn \<Rightarrow> real list" where
  "spec_mixture_segment ext inp beta scales =
     concat (map (\<lambda>jj. map (spec_mixture_entry ext inp beta scales jj) [0..<coefs_nrow inp])
               [1..<dJ inp])"

subsection \<open>The data model of the masks\<close>

text \<open>
  The specification takes a mask as an indicator of the free entries, the blocks as a
  partition of the states, and transitions between blocks as never estimated; the two
  arrays of emissions and observations have the same channels. \<open>masks_wf\<close> says so.
\<close>

definition same_block :: "nat list \<Rightarrow> nat \<Rightarrow> nat \<Rightarrow> bool" where
  "same_block ns i j =
     list_ex (\<lambda>jj. block_start ns jj \<le> i \<and> i < cumsumstate ns jj \<and>
                   block_start ns jj \<le> j \<and> j < cumsumstate ns jj) [0..<length ns]"

definition masks_wf :: "'a input \<Rightarrow> bool" where
  "masks_wf inp =
     (dRo inp = dR inp \<and> sum_list (numberOfStates inp) = dM inp \<and>
      list_all (\<lambda>i. list_all (\<lambda>j. transNZ inp i j = 0 \<or>
                  transNZ inp i j = 1 \<and> same_block (numberOfStates inp) i j) [0..<dM inp])
        [0..<dM inp] \<and>
      list_all (\<lambda>r. list_all (\<lambda>v. list_all (\<lambda>i. emissNZ inp i v r = 0 \<or> emissNZ inp i v r = 1)
                  [0..<dM inp]) [0..<dP inp - 1]) [0..<dR inp] \<and>
      list_all (\<lambda>i. initNZ inp i = 0 \<or> initNZ inp i = 1) [0..<dM inp])"

text \<open>The numbers of nonzero entries of the three masks.\<close>

definition nnz_ANZ :: "'a input \<Rightarrow> nat" where
  "nnz_ANZ inp =
     length (filter (\<lambda>(i, j). transNZ inp i j \<noteq> 0) (List.product [0..<dM inp] [0..<dM inp]))"

definition nnz_BNZ :: "'a input \<Rightarrow> nat" where
  "nnz_BNZ inp =
     length (filter (\<lambda>(r, v, i). emissNZ inp i v r \<noteq> 0)
       (List.product [0..<dR inp] (List.product [0..<dP inp - 1] [0..<dM inp])))"

definition nnz_INZ :: "'a input \<Rightarrow> nat" where
  "nnz_INZ inp = length (filter (\<lambda>i. initNZ inp i \<noteq> 0) [0..<dM inp])"

text \<open>The length of the gradient, and with it each of the three counts, is representable
  in the 32-bit signed integers in which line 26 adds the masks and \<^verbatim>\<open>countgrad\<close>
  counts the entries written.\<close>

definition counts_fit :: "'a input \<Rightarrow> bool" where
  "counts_fit inp =
     (int (nnz_ANZ inp + nnz_BNZ inp + nnz_INZ inp + (dJ inp - 1) * coefs_nrow inp) < 2 ^ 31)"

subsection \<open>Inputs on which every read is in range\<close>

text \<open>
  The consistency of the shapes that the interface of the specification lists: at least
  one symbol column, one block and one time step; a covariate when there is a
  non-reference block; no empty block; the alphabet of every channel within the symbol
  columns; every observation a symbol column; no free emission entry beyond the alphabet
  of its channel; and the masks as in \<open>masks_wf\<close>.
\<close>

definition shapes_ok :: "'a input \<Rightarrow> bool" where
  "shapes_ok inp =
     (masks_wf inp \<and> 0 < dP inp \<and> 0 < dJ inp \<and> 0 < dN inp \<and>
      (dJ inp = 1 \<or> 0 < coefs_nrow inp) \<and>
      list_all (\<lambda>n. 0 < n) (numberOfStates inp) \<and>
      list_all (\<lambda>r. 1 \<le> nSymbols inp r \<and> nSymbols inp r \<le> dP inp) [0..<dR inp] \<and>
      list_all (\<lambda>k. list_all (\<lambda>t. list_all (\<lambda>r.
          0 \<le> obsArray inp k t r \<and> obsArray inp k t r < int (dP inp))
        [0..<dR inp]) [0..<dN inp]) [0..<dK inp] \<and>
      list_all (\<lambda>r. list_all (\<lambda>v. list_all (\<lambda>i.
          v < nSymbols inp r \<or> emissNZ inp i v r = 0)
        [0..<dM inp]) [0..<dP inp - 1]) [0..<dR inp])"

subsection \<open>Appending a segment to the gradient vector\<close>

text \<open>A pass takes the pair (gradient vector, \<^verbatim>\<open>countgrad\<close>) to a new pair. It appends the
  segment \<open>seg\<close> when it overwrites the entries from \<^verbatim>\<open>countgrad\<close> on with \<open>seg\<close>, leaves
  the others alone and advances \<^verbatim>\<open>countgrad\<close> by the length of \<open>seg\<close>.\<close>

definition appends :: "'b list \<Rightarrow> 'b list \<times> nat \<Rightarrow> 'b list \<times> nat \<Rightarrow> bool" where
  "appends seg st st' =
     (snd st + length seg \<le> length (fst st) \<and> snd st' = snd st + length seg \<and>
      fst st' = take (snd st) (fst st) @ seg @ drop (snd st + length seg) (fst st))"

text \<open>The numbers of entries that the three mask-driven passes write: for every block
  row, emission row and block, the number of positions that \<^verbatim>\<open>arma::find\<close> returns.\<close>

definition free_count_A :: "'a input \<Rightarrow> nat" where
  "free_count_A inp =
     (let ns = numberOfStates inp in
      sum_list (map (\<lambda>jj. sum_list (map (\<lambda>i.
          length (find_nz (ns ! jj)
            (\<lambda>j. transNZ inp (block_start ns jj + i) (block_start ns jj + j))))
        [0..<ns ! jj])) [0..<dJ inp]))"

definition free_count_B :: "'a input \<Rightarrow> nat" where
  "free_count_B inp =
     sum_list (map (\<lambda>r. sum_list (map (\<lambda>i.
         length (find_nz (dP inp - 1) (\<lambda>j. emissNZ inp i j r)))
       [0..<dM inp])) [0..<dRo inp])"

definition free_count_I :: "'a input \<Rightarrow> nat" where
  "free_count_I inp =
     (let ns = numberOfStates inp in
      sum_list (map (\<lambda>i. length (find_nz (ns ! i) (\<lambda>j. initNZ inp (block_start ns i + j))))
        [0..<dJ inp]))"

text \<open>The sums of the entries of the masks as integers, before they wrap around.\<close>

definition total_ANZ :: "'a input \<Rightarrow> int" where
  "total_ANZ inp = accu (dM inp) (\<lambda>j. accu (dM inp) (\<lambda>i. transNZ inp i j))"

definition total_BNZ :: "'a input \<Rightarrow> int" where
  "total_BNZ inp =
     accu (dR inp) (\<lambda>r. accu (dP inp - 1) (\<lambda>j. accu (dM inp) (\<lambda>i. emissNZ inp i j r)))"

definition total_INZ :: "'a input \<Rightarrow> int" where
  "total_INZ inp = accu (dM inp) (initNZ inp)"

subsection \<open>A small model used to instantiate the theorems\<close>

text \<open>Three states in two blocks (sizes 2 and 1), one channel with two symbols (and the
  extra column of the emission array), two subjects, two time steps, one covariate. The
  external routines are stand-ins with rational values; the arithmetic is exact.\<close>

definition ex_alpha :: "real cube_fn" where
  "ex_alpha i t k = (1 + real i) / (2 + real t)"

definition ex_scales :: "real mat_fn" where
  "ex_scales t k = 2 + real t + real k"

definition ex_beta :: "real cube_fn" where
  "ex_beta i t k = 1 + real i + real t"

definition ex_ext :: "real extern" where
  "ex_ext = \<lparr> exp_d = (\<lambda>x. 1 + x + x * x / 2), log_d = (\<lambda>x. x - 1),
     is_finite_d = (\<lambda>x. \<bar>x\<bar> \<le> 1000), DBL_MAX = 1000,
     internalForwardx = (\<lambda>e d tr em ik ob. Some (ex_alpha, ex_scales)),
     internalBackward = (\<lambda>e d tr em ob sc. Some ex_beta) \<rparr>"

definition ex_inp :: "real input" where
  "ex_inp = \<lparr> eDims = (3, 3, 1), oDims = (2, 2, 1),
     transitionMatrix = (\<lambda>i j. if i < 2 \<and> j < 2 then 1 / 2 else if i = 2 \<and> j = 2 then 1 else 0),
     emissionArray = (\<lambda>i v r. if v = 2 then 1 else if v = 0 then 1 / 4 else 3 / 4),
     initialProbs = (\<lambda>i. if i = 2 then 1 else 1 / 2),
     obsArray = (\<lambda>k t r. if k = t then 0 else 1),
     transNZ = (\<lambda>i j. if i < 2 \<and> j < 2 then 1 else 0),
     emissNZ = (\<lambda>i v r. 1),
     initNZ = (\<lambda>i. if i < 2 then 1 else 0),
     nSymbols = (\<lambda>r. 2),
     coefs_nrow = 1,
     coefs = (\<lambda>i j. 2),
     X_in = (\<lambda>k l. real k),
     numberOfStates = [2, 1] \<rparr>"

text \<open>The same model with covariates so large that a weight is not finite for \<open>ex_ext\<close>,
  and the same model with all three states in one block.\<close>

definition ex_overflow :: "real input" where
  "ex_overflow = ex_inp\<lparr>X_in := (\<lambda>k l. 100)\<rparr>"

definition ex_single :: "real input" where
  "ex_single = ex_inp\<lparr>numberOfStates := [3], transNZ := (\<lambda>i j. if i < 2 \<and> j < 2 then 1 else 0)\<rparr>"

text \<open>The gradients that the model returns on \<open>ex_inp\<close> and on \<open>ex_single\<close>; the objective
  is \<open>- 8\<close> on both.\<close>

definition ex_grad :: "real list" where
  "ex_grad = [5 / 128, - (5 / 128), 5 / 64, - (5 / 64), 1 / 192, - (1 / 192),
    - (1 / 768), 1 / 768, 7 / 64, - (7 / 64), 5 / 192, - (5 / 192), - (5 / 96)]"

definition ex_grad_single :: "real list" where
  "ex_grad_single = [5 / 128, - (5 / 128), 5 / 64, - (5 / 64), 1 / 128, - (1 / 128),
    1 / 256, - (1 / 256), 0, 0, 21 / 32, 15 / 32]"

text \<open>The overflowing model with a transition mask whose four entries are \<open>2 ^ 30\<close>: their
  sum is \<open>2 ^ 32\<close>, which is 0 in 32 bits.\<close>

definition ex_wrap :: "real input" where
  "ex_wrap = ex_overflow\<lparr>transNZ := (\<lambda>i j. if i < 2 \<and> j < 2 then 2 ^ 30 else 0)\<rparr>"

section \<open>Doubles with overflow\<close>

text \<open>
  A number type in which a sum can overflow, for the example of a column of weights
  whose exponentials are finite and whose sum is not. A finite value is a rational; the
  result of an operation is infinite when its exact value is beyond the largest double by
  half a unit in the last place or more, as in rounding to nearest, and is the largest
  double when it is beyond it by less. Rounding within the range, underflow and the sign
  of zero are not modelled.
\<close>

datatype dbl = Fin rat | PInf | NInf | NaN

definition dbl_max :: rat where
  "dbl_max = (2 ^ 53 - 1) * 2 ^ 971"

definition round_dbl :: "rat \<Rightarrow> dbl" where
  "round_dbl x =
     (if 2 ^ 1024 - 2 ^ 970 \<le> x then PInf
      else if x \<le> - (2 ^ 1024 - 2 ^ 970) then NInf
      else if dbl_max < x then Fin dbl_max
      else if x < - dbl_max then Fin (- dbl_max)
      else Fin x)"

instantiation dbl :: "{zero,one,plus,uminus,times,divide}"
begin

definition zero_dbl :: dbl where "zero_dbl = Fin 0"

definition one_dbl :: dbl where "one_dbl = Fin 1"

fun plus_dbl :: "dbl \<Rightarrow> dbl \<Rightarrow> dbl" where
  "plus_dbl (Fin a) (Fin b) = round_dbl (a + b)"
| "plus_dbl NaN y = NaN"
| "plus_dbl x NaN = NaN"
| "plus_dbl PInf NInf = NaN"
| "plus_dbl NInf PInf = NaN"
| "plus_dbl PInf y = PInf"
| "plus_dbl x PInf = PInf"
| "plus_dbl NInf y = NInf"
| "plus_dbl x NInf = NInf"

fun uminus_dbl :: "dbl \<Rightarrow> dbl" where
  "uminus_dbl (Fin a) = Fin (- a)"
| "uminus_dbl PInf = NInf"
| "uminus_dbl NInf = PInf"
| "uminus_dbl NaN = NaN"

fun times_dbl :: "dbl \<Rightarrow> dbl \<Rightarrow> dbl" where
  "times_dbl (Fin a) (Fin b) = round_dbl (a * b)"
| "times_dbl NaN y = NaN"
| "times_dbl x NaN = NaN"
| "times_dbl (Fin a) PInf = (if a = 0 then NaN else if 0 < a then PInf else NInf)"
| "times_dbl (Fin a) NInf = (if a = 0 then NaN else if 0 < a then NInf else PInf)"
| "times_dbl PInf (Fin b) = (if b = 0 then NaN else if 0 < b then PInf else NInf)"
| "times_dbl NInf (Fin b) = (if b = 0 then NaN else if 0 < b then NInf else PInf)"
| "times_dbl PInf PInf = PInf"
| "times_dbl PInf NInf = NInf"
| "times_dbl NInf PInf = NInf"
| "times_dbl NInf NInf = PInf"

fun divide_dbl :: "dbl \<Rightarrow> dbl \<Rightarrow> dbl" where
  "divide_dbl (Fin a) (Fin b) =
     (if b = 0 then (if a = 0 then NaN else if 0 < a then PInf else NInf)
      else round_dbl (a / b))"
| "divide_dbl NaN y = NaN"
| "divide_dbl x NaN = NaN"
| "divide_dbl (Fin a) PInf = Fin 0"
| "divide_dbl (Fin a) NInf = Fin 0"
| "divide_dbl PInf (Fin b) = (if 0 \<le> b then PInf else NInf)"
| "divide_dbl NInf (Fin b) = (if 0 \<le> b then NInf else PInf)"
| "divide_dbl x y = NaN"

instance ..

end

instantiation dbl :: "{minus,inverse}"
begin

definition minus_dbl :: "dbl \<Rightarrow> dbl \<Rightarrow> dbl" where
  "minus_dbl x y = x + (- y)"

definition inverse_dbl :: "dbl \<Rightarrow> dbl" where
  "inverse_dbl x = divide 1 x"

instance ..

end

text \<open>The finiteness test of line 31 on this type.\<close>

fun dbl_finite :: "dbl \<Rightarrow> bool" where
  "dbl_finite (Fin a) = True"
| "dbl_finite x = False"

text \<open>The values of \<^verbatim>\<open>std::exp\<close> at the two arguments that occur in the example below:
  \<open>exp 0 = 1\<close>, and \<open>exp 709.5\<close> is the double \<^verbatim>\<open>0x1.81e9b4b52d0c9p+1023\<close>, that is
  \<open>6789051773538505 * 2 ^ 971\<close>, about \<open>1.355e308\<close>; the largest double is
  \<open>(2 ^ 53 - 1) * 2 ^ 971\<close>, about \<open>1.797e308\<close>. No other argument is used.\<close>

definition dbl_exp :: "dbl \<Rightarrow> dbl" where
  "dbl_exp x =
     (if x = Fin 0 then Fin 1
      else if x = Fin (1419 / 2) then Fin (6789051773538505 * 2 ^ 971)
      else NaN)"

text \<open>The external routines for this type. The logarithm and the forward and backward
  routines play no part in the computation of the weights.\<close>

definition dbl_ext :: "dbl extern" where
  "dbl_ext = \<lparr> exp_d = dbl_exp, log_d = (\<lambda>x. NaN), is_finite_d = dbl_finite,
     DBL_MAX = Fin dbl_max,
     internalForwardx = (\<lambda>e d tr em ik ob. None),
     internalBackward = (\<lambda>e d tr em ob sc. None) \<rparr>"

text \<open>One subject with the covariate value 1 and three blocks of one state each; the
  coefficients of the two non-reference blocks are \<open>709.5\<close>.\<close>

definition dbl_inp :: "dbl input" where
  "dbl_inp = \<lparr>
     eDims = (3, 2, 1), oDims = (1, 2, 1),
     transitionMatrix = (\<lambda>i j. if i = j then Fin 1 else Fin 0),
     emissionArray = (\<lambda>i v r. Fin (1 / 2)),
     initialProbs = (\<lambda>i. Fin 1),
     obsArray = (\<lambda>k t r. 0),
     transNZ = (\<lambda>i j. 0),
     emissNZ = (\<lambda>i v r. 0),
     initNZ = (\<lambda>i. 0),
     nSymbols = (\<lambda>r. 2),
     coefs_nrow = 1,
     coefs = (\<lambda>i j. Fin (1419 / 2)),
     X_in = (\<lambda>k l. Fin 1),
     numberOfStates = [1, 1, 1] \<rparr>"

section \<open>Loops, lengths and the normal path\<close>

lemma for_each_inv:
  assumes "for_each xs body s = Some s'" and "I s"
    and "\<And>x a b. x \<in> set xs \<Longrightarrow> I a \<Longrightarrow> body x a = Some b \<Longrightarrow> I b"
  shows "I s'"
  using assms
proof (induction xs arbitrary: s)
  case Nil
  then show ?case by simp
next
  case (Cons x xs)
  from Cons.prems(1) obtain s1 where s1: "body x s = Some s1" and r: "for_each xs body s1 = Some s'"
    by (auto split: option.splits)
  have "I s1" using Cons.prems(3)[of x s s1] Cons.prems(2) s1 by simp
  moreover have "\<And>y a b. y \<in> set xs \<Longrightarrow> I a \<Longrightarrow> body y a = Some b \<Longrightarrow> I b"
    by (rule Cons.prems(3)[of y a b for y a b]) (simp_all)
  ultimately show ?case using Cons.IH[OF r] by blast
qed

lemma accu_sum: "accu n f = (\<Sum>i<n. f i)" for f :: "nat \<Rightarrow> 'a::comm_monoid_add"
proof -
  have "foldl (\<lambda>acc i. acc + f i) a [0..<n] = a + (\<Sum>i<n. f i)" for a
    by (induction n arbitrary: a) (simp_all add: add.assoc)
  then show ?thesis by (simp add: accu_def)
qed

lemma reparma_snoc: "reparma x (ns @ [n]) = reparma x ns @ replicate n (x (length ns))"
proof -
  have h: "map (\<lambda>j. replicate ((ns @ [n]) ! j) (x j)) [0..<length ns] =
        map (\<lambda>j. replicate (ns ! j) (x j)) [0..<length ns]"
    by (rule map_cong[OF refl]) (simp add: nth_append)
  show ?thesis by (simp add: reparma_def h)
qed

lemma length_reparma: "length (reparma x ns) = sum_list ns"
  by (induction ns rule: rev_induct) (simp_all add: reparma_snoc, simp add: reparma_def)

lemma block_start_eq: "jj < length ns \<Longrightarrow> block_start ns jj = sum_list (take jj ns)"
  by (simp add: block_start_def cumsumstate_def take_Suc_conv_app_nth)

lemma cumsumstate_eq: "jj < length ns \<Longrightarrow> cumsumstate ns jj = block_start ns jj + ns ! jj"
  by (simp add: block_start_def cumsumstate_def take_Suc_conv_app_nth)

lemma reparma_nth:
  "jj < length ns \<Longrightarrow> i < ns ! jj \<Longrightarrow> reparma x ns ! (block_start ns jj + i) = x jj"
proof (induction ns rule: rev_induct)
  case Nil
  then show ?case by simp
next
  case (snoc n ns)
  show ?case
  proof (cases "jj < length ns")
    case True
    with snoc.prems have i: "i < ns ! jj" by (simp add: nth_append)
    have bs: "block_start (ns @ [n]) jj = block_start ns jj"
      using True by (simp add: block_start_eq)
    have "block_start ns jj + i < sum_list ns"
    proof -
      have "sum_list ns = sum_list (take jj ns) + ns ! jj + sum_list (drop (Suc jj) ns)"
        using True by (metis add.assoc append_take_drop_id Cons_nth_drop_Suc sum_list.Cons sum_list.append)
      then show ?thesis using i True by (simp add: block_start_eq)
    qed
    then show ?thesis using snoc.IH[OF True i] bs
      by (simp add: reparma_snoc nth_append length_reparma)
  next
    case False
    with snoc.prems have jj: "jj = length ns" and i: "i < n" by (simp_all add: nth_append)
    show ?thesis using i by (simp add: jj block_start_eq reparma_snoc nth_append length_reparma)
  qed
qed

lemma write_subvec_length: "write_subvec g c vs = Some g' \<Longrightarrow> length g' = length g"
  by (auto simp: write_subvec_def split: if_splits)

lemma add_subvec_length: "add_subvec g a q v = Some g' \<Longrightarrow> length g' = length g"
  by (auto simp: add_subvec_def split: if_splits)

lemma sub_subvec_length: "sub_subvec g a q v = Some g' \<Longrightarrow> length g' = length g"
  by (auto simp: sub_subvec_def split: if_splits)

lemma transition_row_length:
  "transition_row inp al be sc jj i st = Some st' \<Longrightarrow> length (fst st') = length (fst st)"
  by (auto simp: transition_row_def Let_def dest: write_subvec_length split: if_splits bind_splits)

lemma transition_pass_length:
  assumes "transition_pass inp al be sc st = Some st'"
  shows "length (fst st') = length (fst st)"
proof (cases "0 < accu_ANZ inp")
  case True
  have inner: "length (fst b) = length (fst a)"
    if "for_each [0..<numberOfStates inp ! jj] (transition_row inp al be sc jj) a = Some b" for jj a b
    by (rule for_each_inv[OF that, where I = "\<lambda>s. length (fst s) = length (fst a)"])
       (auto dest: transition_row_length)
  from assms True have "for_each [0..<dJ inp] (\<lambda>jj.
      for_each [0..<numberOfStates inp ! jj] (transition_row inp al be sc jj)) st = Some st'"
    by (simp add: transition_pass_def)
  then show ?thesis
    by (rule for_each_inv[where I = "\<lambda>s. length (fst s) = length (fst st)"])
       (auto dest: inner)
next
  case False
  with assms show ?thesis by (simp add: transition_pass_def)
qed

lemma emission_row_length:
  "emission_row ext inp al be sc r i st = Some st' \<Longrightarrow> length (fst st') = length (fst st)"
  by (auto simp: emission_row_def Let_def dest: write_subvec_length split: if_splits bind_splits)

lemma emission_pass_length:
  assumes "emission_pass ext inp al be sc st = Some st'"
  shows "length (fst st') = length (fst st)"
proof (cases "0 < accu_BNZ inp")
  case True
  have inner: "length (fst b) = length (fst a)"
    if "for_each [0..<dM inp] (emission_row ext inp al be sc r) a = Some b" for r a b
    by (rule for_each_inv[OF that, where I = "\<lambda>s. length (fst s) = length (fst a)"])
       (auto dest: emission_row_length)
  from assms True have "for_each [0..<dRo inp] (\<lambda>r.
      for_each [0..<dM inp] (emission_row ext inp al be sc r)) st = Some st'"
    by (simp add: emission_pass_def)
  then show ?thesis
    by (rule for_each_inv[where I = "\<lambda>s. length (fst s) = length (fst st)"])
       (auto dest: inner)
next
  case False
  with assms show ?thesis by (simp add: emission_pass_def)
qed

lemma initial_block_length:
  "initial_block ext inp be sc i st = Some st' \<Longrightarrow> length (fst st') = length (fst st)"
  by (auto simp: initial_block_def Let_def dest: write_subvec_length split: if_splits bind_splits)

lemma initial_pass_length:
  assumes "initial_pass ext inp be sc st = Some st'"
  shows "length (fst st') = length (fst st)"
proof (cases "0 < accu_INZ inp")
  case True
  with assms have "for_each [0..<dJ inp] (initial_block ext inp be sc) st = Some st'"
    by (simp add: initial_pass_def)
  then show ?thesis
    by (rule for_each_inv[where I = "\<lambda>s. length (fst s) = length (fst st)"])
       (auto dest: initial_block_length)
next
  case False
  with assms show ?thesis by (simp add: initial_pass_def)
qed

lemma mixture_step_length:
  "mixture_step ext inp be sc c jj k j g = Some g' \<Longrightarrow> length g' = length g"
  by (auto simp: mixture_step_def Let_def dest: add_subvec_length sub_subvec_length
      split: if_splits bind_splits)

lemma mixture_pass_length:
  assumes "mixture_pass ext inp be sc st = Some g'"
  shows "length g' = length (fst st)"
proof -
  have l3: "length b = length a"
    if "for_each [0..<dM inp] (mixture_step ext inp be sc (snd st) jj k) a = Some b" for jj k a b
    by (rule for_each_inv[OF that, where I = "\<lambda>s. length s = length a"])
       (auto dest: mixture_step_length)
  have l2: "length b = length a"
    if "for_each [0..<dK inp] (\<lambda>k. for_each [0..<dM inp]
          (mixture_step ext inp be sc (snd st) jj k)) a = Some b" for jj a b
    by (rule for_each_inv[OF that, where I = "\<lambda>s. length s = length a"]) (auto dest: l3)
  from assms show ?thesis unfolding mixture_pass_def
    by (rule for_each_inv[where I = "\<lambda>s. length s = length (fst st)"]) (auto dest: l2)
qed

text \<open>What a call that takes the normal path returns.\<close>

lemma objectivex_normal:
  assumes "objectivex ext inp = Some (obj, grad)" and "weights_finite ext inp"
  shows "\<exists>alpha scales beta st1 st2 st3 g.
    internalForwardx ext (eDims inp) (oDims inp) (transitionMatrix inp) (emissionArray inp)
      (initk ext inp) (obsArray inp) = Some (alpha, scales) \<and>
    internalBackward ext (eDims inp) (oDims inp) (transitionMatrix inp) (emissionArray inp)
      (obsArray inp) scales = Some beta \<and>
    transition_pass inp alpha beta scales (replicate (grad_size inp) 0, 0) = Some st1 \<and>
    emission_pass ext inp alpha beta scales st1 = Some st2 \<and>
    initial_pass ext inp beta scales st2 = Some st3 \<and>
    mixture_pass ext inp beta scales st3 = Some g \<and>
    obj = - accu (dK inp) (ll ext inp scales) \<and> grad = map uminus g \<and>
    0 < dP inp \<and> 0 < dJ inp \<and>
    (0 < dK inp \<longrightarrow> sum_list (numberOfStates inp) = dM inp)"
  using assms
  by (auto simp: objectivex_def split: if_splits bind_splits prod.splits)

lemma objectivex_length:
  assumes "objectivex ext inp = Some (obj, grad)"
  shows "length grad = grad_size inp"
proof (cases "weights_finite ext inp")
  case True
  from objectivex_normal[OF assms True] obtain alpha scales beta st1 st2 st3 g where
    p: "transition_pass inp alpha beta scales (replicate (grad_size inp) 0, 0) = Some st1"
      "emission_pass ext inp alpha beta scales st1 = Some st2"
      "initial_pass ext inp beta scales st2 = Some st3"
      "mixture_pass ext inp beta scales st3 = Some g"
      "grad = map uminus g"
    by blast
  have "length g = grad_size inp"
    using transition_pass_length[OF p(1)] emission_pass_length[OF p(2)]
      initial_pass_length[OF p(3)] mixture_pass_length[OF p(4)] by simp
  with p(5) show ?thesis by simp
next
  case False
  with assms show ?thesis by (auto simp: objectivex_def split: if_splits)
qed

section \<open>The reference column of the coefficients\<close>

lemma upd_dims:
  "dM (inp\<lparr>coefs := c'\<rparr>) = dM inp" "dP (inp\<lparr>coefs := c'\<rparr>) = dP inp"
  "dR (inp\<lparr>coefs := c'\<rparr>) = dR inp" "dK (inp\<lparr>coefs := c'\<rparr>) = dK inp"
  "dN (inp\<lparr>coefs := c'\<rparr>) = dN inp" "dRo (inp\<lparr>coefs := c'\<rparr>) = dRo inp"
  "dJ (inp\<lparr>coefs := c'\<rparr>) = dJ inp"
  "aDims (inp\<lparr>coefs := c'\<rparr>) = aDims inp" "sDims (inp\<lparr>coefs := c'\<rparr>) = sDims inp"
  "grad_size (inp\<lparr>coefs := c'\<rparr>) = grad_size inp"
  "accu_ANZ (inp\<lparr>coefs := c'\<rparr>) = accu_ANZ inp"
  "accu_BNZ (inp\<lparr>coefs := c'\<rparr>) = accu_BNZ inp"
  "accu_INZ (inp\<lparr>coefs := c'\<rparr>) = accu_INZ inp"
  by (simp_all add: dM_def dP_def dR_def dK_def dN_def dRo_def dJ_def aDims_def sDims_def
      grad_size_def accu_ANZ_def accu_BNZ_def accu_INZ_def)

lemma upd_coef:
  assumes "\<forall>i<coefs_nrow inp. \<forall>j<dJ inp. j \<noteq> 0 \<longrightarrow> c' i j = coefs inp i j"
  shows "coef (inp\<lparr>coefs := c'\<rparr>) = coef inp"
  using assms by (intro ext) (simp add: coef_def upd_dims Let_def cong: if_cong)

lemma upd_weights:
  assumes upd_coef: "coef (inp\<lparr>coefs := c'\<rparr>) = coef inp"
  shows "X_coef (inp\<lparr>coefs := c'\<rparr>) = X_coef inp"
  and "exp_weights ext (inp\<lparr>coefs := c'\<rparr>) = exp_weights ext inp"
  and "weights_finite ext (inp\<lparr>coefs := c'\<rparr>) = weights_finite ext inp"
  and "lweights ext (inp\<lparr>coefs := c'\<rparr>) = lweights ext inp"
  and "initk ext (inp\<lparr>coefs := c'\<rparr>) = initk ext inp"
proof -
  show a: "X_coef (inp\<lparr>coefs := c'\<rparr>) = X_coef inp"
    by (intro ext) (simp add: X_coef_def upd_coef Let_def cong: if_cong)
  show b: "exp_weights ext (inp\<lparr>coefs := c'\<rparr>) = exp_weights ext inp" for ext
    by (intro ext) (simp add: exp_weights_def a Let_def cong: if_cong)
  show "weights_finite ext (inp\<lparr>coefs := c'\<rparr>) = weights_finite ext inp"
    by (simp add: weights_finite_def b upd_dims Let_def cong: if_cong)
  show c: "lweights ext (inp\<lparr>coefs := c'\<rparr>) = lweights ext inp" for ext
    by (intro ext) (simp add: lweights_def b upd_dims Let_def cong: if_cong)
  show "initk ext (inp\<lparr>coefs := c'\<rparr>) = initk ext inp"
    by (intro ext) (simp add: initk_def c Let_def cong: if_cong)
qed

lemma upd_reads:
  "emission_at (inp\<lparr>coefs := c'\<rparr>) = emission_at inp"
  "obs_at (inp\<lparr>coefs := c'\<rparr>) = obs_at inp"
  "emission_prod (inp\<lparr>coefs := c'\<rparr>) = emission_prod inp"
  "alpha_dot (inp\<lparr>coefs := c'\<rparr>) = alpha_dot inp"
  "ll ext (inp\<lparr>coefs := c'\<rparr>) = ll ext inp"
proof -
  show a: "emission_at (inp\<lparr>coefs := c'\<rparr>) = emission_at inp"
    by (intro ext) (simp add: emission_at_def Let_def cong: if_cong)
  show b: "obs_at (inp\<lparr>coefs := c'\<rparr>) = obs_at inp"
    by (intro ext) (simp add: obs_at_def Let_def cong: if_cong)
  show "emission_prod (inp\<lparr>coefs := c'\<rparr>) = emission_prod inp"
    by (intro ext) (simp add: emission_prod_def a b upd_dims Let_def cong: if_cong)
  show "alpha_dot (inp\<lparr>coefs := c'\<rparr>) = alpha_dot inp"
    by (intro ext) (simp add: alpha_dot_def upd_dims Let_def cong: if_cong)
  show "ll ext (inp\<lparr>coefs := c'\<rparr>) = ll ext inp"
    by (intro ext) (simp add: ll_def upd_dims Let_def cong: if_cong)
qed

lemma upd_transition: "transition_pass (inp\<lparr>coefs := c'\<rparr>) = transition_pass inp"
proof -
  have a: "gradArow_loop (inp\<lparr>coefs := c'\<rparr>) = gradArow_loop inp"
    by (intro ext) (simp add: gradArow_loop_def upd_dims upd_reads Let_def cong: if_cong)
  have b: "transition_row (inp\<lparr>coefs := c'\<rparr>) = transition_row inp"
    by (intro ext) (simp add: transition_row_def upd_dims a Let_def cong: if_cong)
  show ?thesis by (intro ext) (simp add: transition_pass_def upd_dims b Let_def cong: if_cong)
qed

lemma upd_emission:
  assumes h: "coef (inp\<lparr>coefs := c'\<rparr>) = coef inp"
  shows "emission_pass ext (inp\<lparr>coefs := c'\<rparr>) = emission_pass ext inp"
proof -
  have a: "gradBrow_first ext (inp\<lparr>coefs := c'\<rparr>) = gradBrow_first ext inp"
    by (intro ext) (simp add: gradBrow_first_def upd_dims upd_reads upd_weights[OF h] Let_def cong: if_cong)
  have b: "gradBrow_later (inp\<lparr>coefs := c'\<rparr>) = gradBrow_later inp"
    by (intro ext) (simp add: gradBrow_later_def upd_dims upd_reads Let_def cong: if_cong)
  have c: "gradBrow_loop ext (inp\<lparr>coefs := c'\<rparr>) = gradBrow_loop ext inp"
    by (intro ext) (simp add: gradBrow_loop_def upd_dims a b Let_def cong: if_cong)
  have d: "emission_row ext (inp\<lparr>coefs := c'\<rparr>) = emission_row ext inp"
    by (intro ext) (simp add: emission_row_def upd_dims c Let_def cong: if_cong)
  show ?thesis by (intro ext) (simp add: emission_pass_def upd_dims d Let_def cong: if_cong)
qed

lemma upd_initial:
  assumes h: "coef (inp\<lparr>coefs := c'\<rparr>) = coef inp"
  shows "initial_pass ext (inp\<lparr>coefs := c'\<rparr>) = initial_pass ext inp"
proof -
  have a: "gradIrow_loop ext (inp\<lparr>coefs := c'\<rparr>) = gradIrow_loop ext inp"
    by (intro ext) (simp add: gradIrow_loop_def upd_dims upd_reads upd_weights[OF h] Let_def cong: if_cong)
  have b: "initial_block ext (inp\<lparr>coefs := c'\<rparr>) = initial_block ext inp"
    by (intro ext) (simp add: initial_block_def upd_dims a Let_def cong: if_cong)
  show ?thesis by (intro ext) (simp add: initial_pass_def upd_dims b Let_def cong: if_cong)
qed

lemma upd_mixture:
  assumes h: "coef (inp\<lparr>coefs := c'\<rparr>) = coef inp"
  shows "mixture_pass ext (inp\<lparr>coefs := c'\<rparr>) = mixture_pass ext inp"
proof -
  have a: "mixture_step ext (inp\<lparr>coefs := c'\<rparr>) = mixture_step ext inp"
    by (intro ext) (simp add: mixture_step_def upd_dims upd_reads upd_weights[OF h] Let_def cong: if_cong)
  show ?thesis by (intro ext) (simp add: mixture_pass_def upd_dims a Let_def cong: if_cong)
qed

lemma upd_objectivex:
  assumes h: "coef (inp\<lparr>coefs := c'\<rparr>) = coef inp"
  shows "objectivex ext (inp\<lparr>coefs := c'\<rparr>) = objectivex ext inp"
  by (simp add: objectivex_def upd_dims upd_weights[OF h] upd_reads upd_transition
      upd_emission[OF h] upd_initial[OF h] upd_mixture[OF h] cong: if_cong)

section \<open>The loops compute the sums of the specification\<close>

lemma sum_list_upt: "(\<Sum>x\<leftarrow>[0..<n]. f x) = (\<Sum>x<n. f x)" for f :: "nat \<Rightarrow> 'a::comm_monoid_add"
  by (simp add: interv_sum_list_conv_sum_set_nat atLeast0LessThan)

lemma prod_list_upt: "prod_list (map f [0..<n]) = (\<Prod>x<n. f x)" for f :: "nat \<Rightarrow> 'a::comm_monoid_mult"
  by (simp add: prod.distinct_set_conv_list[symmetric] atLeast0LessThan)

lemma for_each_vec_add:
  fixes val :: "'i \<Rightarrow> nat \<Rightarrow> 'a::comm_monoid_add"
  assumes step: "\<And>x a b. x \<in> set xs \<Longrightarrow> length a = n \<Longrightarrow> body x a = Some b \<Longrightarrow>
      length b = n \<and> (\<forall>j<n. b ! j = a ! j + val x j)"
    and len: "length a = n" and run: "for_each xs body a = Some b"
  shows "length b = n \<and> (\<forall>j<n. b ! j = a ! j + (\<Sum>x\<leftarrow>xs. val x j))"
  using assms
proof (induction xs arbitrary: a)
  case Nil
  then show ?case by simp
next
  case (Cons x xs)
  from Cons.prems(3) obtain a1 where a1: "body x a = Some a1" and r: "for_each xs body a1 = Some b"
    by (auto split: option.splits)
  have s1: "length a1 = n \<and> (\<forall>j<n. a1 ! j = a ! j + val x j)"
    by (rule Cons.prems(1)[OF _ Cons.prems(2) a1]) simp
  have "length b = n \<and> (\<forall>j<n. b ! j = a1 ! j + (\<Sum>x\<leftarrow>xs. val x j))"
  proof (rule Cons.IH[OF _ _ r])
    show "length a1 = n" using s1 by simp
    show "\<And>y a b. y \<in> set xs \<Longrightarrow> length a = n \<Longrightarrow> body y a = Some b \<Longrightarrow>
        length b = n \<and> (\<forall>j<n. b ! j = a ! j + val y j)"
      by (rule Cons.prems(1)) simp_all
  qed
  with s1 show ?case by (simp add: add.assoc)
qed

lemma for_each_mult:
  fixes f :: "'i \<Rightarrow> 'a::monoid_mult"
  assumes step: "\<And>x a b. x \<in> set xs \<Longrightarrow> body x a = Some b \<Longrightarrow> b = a * f x"
    and run: "for_each xs body a = Some b"
  shows "b = a * prod_list (map f xs)"
  using assms
proof (induction xs arbitrary: a)
  case Nil
  then show ?case by simp
next
  case (Cons x xs)
  from Cons.prems(2) obtain a1 where a1: "body x a = Some a1" and r: "for_each xs body a1 = Some b"
    by (auto split: option.splits)
  have s1: "a1 = a * f x" by (rule Cons.prems(1)[OF _ a1]) simp
  have "b = a1 * prod_list (map f xs)"
    by (rule Cons.IH[OF _ r]) (rule Cons.prems(1), simp_all)
  with s1 show ?case by (simp add: mult.assoc)
qed

lemma add_at_Some:
  "add_at a j v = Some b \<Longrightarrow> j < length a \<and> b = a[j := a ! j + v]"
  by (auto simp: add_at_def split: if_splits)

lemma add_at_vec:
  fixes a :: "'a::comm_monoid_add list"
  assumes "add_at a j v = Some b" and "length a = n"
  shows "length b = n \<and> (\<forall>j'<n. b ! j' = a ! j' + (if j' = j then v else 0))"
  using add_at_Some[OF assms(1)] assms(2) by (auto simp: nth_list_update)

lemma sum_list_delta:
  fixes g :: "nat \<Rightarrow> 'a::comm_monoid_add"
  assumes "j' < n"
  shows "(\<Sum>j\<leftarrow>[0..<n]. if j' = j then g j else 0) = g j'"
  using assms by (simp add: sum_list_upt)

lemma emission_prod_value:
  fixes inp :: "real input"
  assumes "emission_prod inp keep i k t = Some v"
  shows "v = (\<Prod>r<dRo inp. if keep r then emissionArray inp i (nat (obsArray inp k t r)) r else 1)"
proof -
  have "v = 1 * prod_list (map (\<lambda>r. if keep r
      then emissionArray inp i (nat (obsArray inp k t r)) r else 1) [0..<dRo inp])"
    by (rule for_each_mult[OF _ assms[unfolded emission_prod_def]])
       (auto simp: obs_at_def emission_at_def at3_def split: if_splits bind_splits)
  then show ?thesis by (simp add: prod_list_upt)
qed

lemma emission_prod_all:
  fixes inp :: "real input"
  assumes "emission_prod inp (\<lambda>r. True) i k t = Some v"
  shows "v = all_channels_product inp i k t"
  using emission_prod_value[OF assms] by (simp add: all_channels_product_def)

lemma emission_prod_other:
  fixes inp :: "real input"
  assumes "emission_prod inp (\<lambda>r2. r2 \<noteq> r) i k t = Some v"
  shows "v = other_channels_product inp r i k t"
proof -
  have "(\<Prod>r2<dRo inp. if r2 \<noteq> r then emissionArray inp i (nat (obsArray inp k t r2)) r2 else 1)
      = (\<Prod>r2\<in>{..<dRo inp} - {r}. emissionArray inp i (nat (obsArray inp k t r2)) r2)"
    by (rule prod.mono_neutral_cong_right) auto
  with emission_prod_value[OF assms] show ?thesis by (simp add: other_channels_product_def)
qed

lemma at3_Some: "at3 d c i j s = Some v \<Longrightarrow> v = c i j s"
  by (auto simp: at3_def split: if_splits)

lemma at2_Some: "at2 d m i j = Some v \<Longrightarrow> v = m i j"
  by (auto simp: at2_def split: if_splits)

lemma gradArow_loop_value:
  fixes inp :: "real input"
  assumes run: "gradArow_loop inp alpha beta scales jj i = Some row"
  shows "row = map (spec_transition_raw inp alpha beta scales jj i) [0..<numberOfStates inp ! jj]"
proof -
  define n where "n = numberOfStates inp ! jj"
  define s0 where "s0 = block_start (numberOfStates inp) jj"
  define tm where "tm k t j = alpha (s0 + i) t k * all_channels_product inp (s0 + j) k (t + 1)
          * beta (s0 + j) (t + 1) k / scales (t + 1) k" for k t j
  define body where "body = (\<lambda>k t j (gradArow :: real list). do {
            tmp \<leftarrow> emission_prod inp (\<lambda>r. True) (s0 + j) k (t + 1);
            a \<leftarrow> at3 (aDims inp) alpha (s0 + i) t k;
            b \<leftarrow> at3 (aDims inp) beta (s0 + j) (t + 1) k;
            s \<leftarrow> at2 (sDims inp) scales (t + 1) k;
            add_at gradArow j (a * tmp * b / s) })"
  have inner: "length b = n \<and> (\<forall>j'<n. b ! j' = a ! j' + (if j' = j then tm k t j else 0))"
    if "body k t j a = Some b" "length a = n" for k t j a b
  proof -
    from that(1) obtain tmp x y s where
      "emission_prod inp (\<lambda>r. True) (s0 + j) k (t + 1) = Some tmp"
      "at3 (aDims inp) alpha (s0 + i) t k = Some x"
      "at3 (aDims inp) beta (s0 + j) (t + 1) k = Some y"
      "at2 (sDims inp) scales (t + 1) k = Some s"
      "add_at a j (x * tmp * y / s) = Some b"
      by (auto simp: body_def split: bind_splits)
    then have "add_at a j (tm k t j) = Some b"
      by (auto simp: tm_def dest!: emission_prod_all at3_Some at2_Some)
    from add_at_vec[OF this that(2)] show ?thesis .
  qed
  have lj: "length b = n \<and> (\<forall>j'<n. b ! j' = a ! j' + tm k t j')"
    if "for_each [0..<n] (body k t) a = Some b" "length a = n" for k t a b
    using for_each_vec_add[where body = "body k t" and val = "\<lambda>j j'. if j' = j then tm k t j else 0",
        OF inner that(2,1)]
    by (simp add: sum_list_delta)
  have lt: "length b = n \<and> (\<forall>j'<n. b ! j' = a ! j' + (\<Sum>t<dN inp - 1. tm k t j'))"
    if "for_each [0..<dN inp - 1] (\<lambda>t. for_each [0..<n] (body k t)) a = Some b" "length a = n"
    for k a b
    using for_each_vec_add[where body = "\<lambda>t. for_each [0..<n] (body k t)" and val = "tm k",
        OF lj that(2,1)]
    by (simp add: sum_list_upt)
  have "for_each [0..<dK inp] (\<lambda>k. for_each [0..<dN inp - 1] (\<lambda>t. for_each [0..<n] (body k t)))
      (replicate n 0) = Some row"
    using run unfolding gradArow_loop_def Let_def n_def s0_def body_def .
  from for_each_vec_add[where body = "\<lambda>k. for_each [0..<dN inp - 1] (\<lambda>t. for_each [0..<n] (body k t))"
      and val = "\<lambda>k j'. \<Sum>t<dN inp - 1. tm k t j'", OF lt _ this]
  have "length row = n \<and> (\<forall>j'<n. row ! j' = (\<Sum>k<dK inp. \<Sum>t<dN inp - 1. tm k t j'))"
    by (simp add: sum_list_upt)
  then show ?thesis
    by (intro nth_equalityI)
       (simp_all add: n_def spec_transition_raw_def Let_def tm_def s0_def)
qed

lemma rows_Some: "rows v ind = Some vs \<Longrightarrow> vs = map ((!) v) ind \<and> (\<forall>j\<in>set ind. j < length v)"
  by (auto simp: rows_def list_all_iff split: if_splits)

lemma simplex_jac_spec: "simplex_jac p a b = spec_jacobian p a b" for p :: "nat \<Rightarrow> real"
  by (simp add: simplex_jac_def spec_jacobian_def algebra_simps)

lemma mat_vec_spec:
  fixes raw :: "nat \<Rightarrow> real"
  assumes "a < n"
  shows "mat_vec n (simplex_jac p) (map raw [0..<n]) ! a = spec_jacobian_times n p raw a"
  using assms by (simp add: mat_vec_def accu_sum spec_jacobian_times_def simplex_jac_spec)

lemma appends_refl: "snd st \<le> length (fst st) \<Longrightarrow> appends [] st st"
  by (cases st) (simp add: appends_def)

lemma appends_length: "appends seg st st' \<Longrightarrow> length (fst st') = length (fst st)"
  by (auto simp: appends_def)

lemma appends_bound: "appends seg st st' \<Longrightarrow> snd st' \<le> length (fst st')"
  by (auto simp: appends_def)

lemma appends_trans:
  assumes "appends s1 a b" and "appends s2 b c"
  shows "appends (s1 @ s2) a c"
proof -
  obtain g c0 where a: "a = (g, c0)" by (cases a)
  from assms(1) have b: "c0 + length s1 \<le> length g" "snd b = c0 + length s1"
    "fst b = take c0 g @ s1 @ drop (c0 + length s1) g"
    by (simp_all add: appends_def a)
  from assms(2) b have c: "c0 + length s1 + length s2 \<le> length g"
    "snd c = c0 + length s1 + length s2"
    "fst c = take (c0 + length s1) (fst b) @ s2 @ drop (c0 + length s1 + length s2) (fst b)"
    by (simp_all add: appends_def)
  have t: "take (c0 + length s1) (fst b) = take c0 g @ s1"
    using b(1) by (simp add: b(3))
  have d: "drop (c0 + length s1 + length s2) (fst b) = drop (c0 + length s1 + length s2) g"
    using b(1) by (simp add: b(3) add.commute)
  have "fst c = take c0 g @ (s1 @ s2) @ drop (c0 + length (s1 @ s2)) g"
    unfolding c(3) t d by (simp add: add.assoc)
  with c(1,2) show ?thesis by (simp add: appends_def a add.assoc)
qed

lemma write_subvec_appends:
  assumes "write_subvec (fst st) (snd st) vs = Some g"
  shows "appends vs st (g, snd st + length vs)"
  using assms by (auto simp: write_subvec_def appends_def split: if_splits)

lemma for_each_appends:
  assumes step: "\<And>x st st'. x \<in> set xs \<Longrightarrow> snd st \<le> length (fst st) \<Longrightarrow>
      body x st = Some st' \<Longrightarrow> appends (seg x) st st'"
    and bound: "snd st \<le> length (fst st)" and run: "for_each xs body st = Some st'"
  shows "appends (concat (map seg xs)) st st'"
  using assms
proof (induction xs arbitrary: st)
  case Nil
  then show ?case by (simp add: appends_refl)
next
  case (Cons x xs)
  from Cons.prems(3) obtain s1 where s1: "body x st = Some s1" and r: "for_each xs body s1 = Some st'"
    by (auto split: option.splits)
  have a1: "appends (seg x) st s1"
    by (rule Cons.prems(1)[OF _ Cons.prems(2) s1]) simp
  have "appends (concat (map seg xs)) s1 st'"
  proof (rule Cons.IH[OF _ _ r])
    show "snd s1 \<le> length (fst s1)" by (rule appends_bound[OF a1])
    show "\<And>y st st'. y \<in> set xs \<Longrightarrow> snd st \<le> length (fst st) \<Longrightarrow> body y st = Some st' \<Longrightarrow>
        appends (seg y) st st'"
      by (rule Cons.prems(1)) simp_all
  qed
  with a1 show ?case by (simp add: appends_trans)
qed

lemma transition_row_appends:
  fixes inp :: "real input"
  assumes run: "transition_row inp alpha beta scales jj i st = Some st'"
    and bound: "snd st \<le> length (fst st)"
  shows "appends (spec_transition_row inp alpha beta scales jj i) st st'"
proof -
  define n where "n = numberOfStates inp ! jj"
  define s0 where "s0 = block_start (numberOfStates inp) jj"
  define ind where "ind = find_nz n (\<lambda>j. transNZ inp (s0 + i) (s0 + j))"
  have ind: "ind = filter (\<lambda>j. transNZ inp (s0 + i) (s0 + j) \<noteq> 0) [0..<n]"
    by (simp add: ind_def find_nz_def)
  show ?thesis
  proof (cases "ind = []")
    case True
    with run have "st' = st"
      by (auto simp: transition_row_def Let_def ind_def n_def s0_def split: if_splits)
    moreover have "spec_transition_row inp alpha beta scales jj i = []"
      using True by (simp add: spec_transition_row_def Let_def ind n_def s0_def)
    ultimately show ?thesis using bound by (simp add: appends_refl)
  next
    case False
    with run obtain row vs g where
      row: "gradArow_loop inp alpha beta scales jj i = Some row"
      and vs: "rows (mat_vec n (simplex_jac (\<lambda>j. transitionMatrix inp (s0 + i) (s0 + j))) row) ind
          = Some vs"
      and g: "write_subvec (fst st) (snd st) vs = Some g"
      and st': "st' = (g, snd st + length ind)"
      by (auto simp: transition_row_def Let_def ind_def n_def s0_def split: if_splits bind_splits)
    have row': "row = map (spec_transition_raw inp alpha beta scales jj i) [0..<n]"
      using gradArow_loop_value[OF row] by (simp add: n_def)
    have "vs = map (spec_jacobian_times n (\<lambda>j. transitionMatrix inp (s0 + i) (s0 + j))
        (spec_transition_raw inp alpha beta scales jj i)) ind"
      using rows_Some[OF vs] by (auto simp: row' ind mat_vec_spec)
    then have vs': "vs = spec_transition_row inp alpha beta scales jj i"
      by (simp add: spec_transition_row_def Let_def ind n_def s0_def)
    have "length vs = length ind" using rows_Some[OF vs] by simp
    with write_subvec_appends[OF g] show ?thesis by (simp add: st' vs'[symmetric])
  qed
qed

lemma transition_pass_appends:
  fixes inp :: "real input"
  assumes run: "transition_pass inp alpha beta scales st = Some st'"
    and bound: "snd st \<le> length (fst st)"
    and guard: "0 < accu_ANZ inp \<or> spec_transition_segment inp alpha beta scales = []"
  shows "appends (spec_transition_segment inp alpha beta scales) st st'"
proof (cases "0 < accu_ANZ inp")
  case True
  have inner: "appends (concat (map (spec_transition_row inp alpha beta scales jj)
        [0..<numberOfStates inp ! jj])) a b"
    if "for_each [0..<numberOfStates inp ! jj] (transition_row inp alpha beta scales jj) a = Some b"
      "snd a \<le> length (fst a)" for jj a b
    by (rule for_each_appends[OF _ that(2,1)]) (rule transition_row_appends)
  from run True have "for_each [0..<dJ inp] (\<lambda>jj.
      for_each [0..<numberOfStates inp ! jj] (transition_row inp alpha beta scales jj)) st = Some st'"
    by (simp add: transition_pass_def)
  from for_each_appends[where seg = "\<lambda>jj. concat (map (spec_transition_row inp alpha beta scales jj)
        [0..<numberOfStates inp ! jj])", OF _ bound this] inner
  show ?thesis by (simp add: spec_transition_segment_def)
next
  case False
  with run guard bound show ?thesis by (simp add: transition_pass_def appends_refl)
qed

lemma gradIrow_loop_value:
  fixes inp :: "real input"
  assumes run: "gradIrow_loop ext inp beta scales i = Some row"
  shows "row = map (spec_initial_raw ext inp beta scales i) [0..<numberOfStates inp ! i]"
proof -
  define n where "n = numberOfStates inp ! i"
  define s0 where "s0 = block_start (numberOfStates inp) i"
  define tm where "tm j k = all_channels_product inp (s0 + j) k 0 * beta (s0 + j) 0 k / scales 0 k
                   * lweights ext inp i k" for j k
  define body where "body = (\<lambda>j k (gradIrow :: real list). do {
          tmp \<leftarrow> emission_prod inp (\<lambda>r. True) (s0 + j) k 0;
          b \<leftarrow> at3 (aDims inp) beta (s0 + j) 0 k;
          s \<leftarrow> at2 (sDims inp) scales 0 k;
          w \<leftarrow> at2 (dJ inp, dK inp) (lweights ext inp) i k;
          add_at gradIrow j (tmp * b / s * w) })"
  have inner: "length b = n \<and> (\<forall>j'<n. b ! j' = a ! j' + (if j' = j then tm j k else 0))"
    if "body j k a = Some b" "length a = n" for j k a b
  proof -
    from that(1) obtain tmp y s w where
      "emission_prod inp (\<lambda>r. True) (s0 + j) k 0 = Some tmp"
      "at3 (aDims inp) beta (s0 + j) 0 k = Some y"
      "at2 (sDims inp) scales 0 k = Some s"
      "at2 (dJ inp, dK inp) (lweights ext inp) i k = Some w"
      "add_at a j (tmp * y / s * w) = Some b"
      by (auto simp: body_def split: bind_splits)
    then have "add_at a j (tm j k) = Some b"
      by (auto simp: tm_def dest!: emission_prod_all at3_Some at2_Some)
    from add_at_vec[OF this that(2)] show ?thesis .
  qed
  have lk: "length b = n \<and> (\<forall>j'<n. b ! j' = a ! j' + (if j' = j then (\<Sum>k<dK inp. tm j k) else 0))"
    if "for_each [0..<dK inp] (body j) a = Some b" "length a = n" for j a b
    using for_each_vec_add[where body = "body j" and val = "\<lambda>k j'. if j' = j then tm j k else 0",
        OF inner that(2,1)]
    by (simp add: sum_list_upt)
  have "for_each [0..<n] (\<lambda>j. for_each [0..<dK inp] (body j)) (replicate n 0) = Some row"
    using run unfolding gradIrow_loop_def Let_def n_def s0_def body_def .
  from for_each_vec_add[where body = "\<lambda>j. for_each [0..<dK inp] (body j)"
      and val = "\<lambda>j j'. if j' = j then (\<Sum>k<dK inp. tm j k) else 0", OF lk _ this]
  have "length row = n \<and> (\<forall>j'<n. row ! j' = (\<Sum>k<dK inp. tm j' k))"
    by (simp add: sum_list_delta)
  then show ?thesis
    by (intro nth_equalityI)
       (simp_all add: n_def spec_initial_raw_def Let_def tm_def s0_def)
qed

lemma initial_block_appends:
  fixes inp :: "real input"
  assumes run: "initial_block ext inp beta scales i st = Some st'"
    and bound: "snd st \<le> length (fst st)"
  shows "appends (spec_initial_block ext inp beta scales i) st st'"
proof -
  define n where "n = numberOfStates inp ! i"
  define s0 where "s0 = block_start (numberOfStates inp) i"
  define ind where "ind = find_nz n (\<lambda>j. initNZ inp (s0 + j))"
  have ind: "ind = filter (\<lambda>j. initNZ inp (s0 + j) \<noteq> 0) [0..<n]"
    by (simp add: ind_def find_nz_def)
  show ?thesis
  proof (cases "ind = []")
    case True
    with run have "st' = st"
      by (auto simp: initial_block_def Let_def ind_def n_def s0_def split: if_splits)
    moreover have "spec_initial_block ext inp beta scales i = []"
      using True by (simp add: spec_initial_block_def Let_def ind n_def s0_def)
    ultimately show ?thesis using bound by (simp add: appends_refl)
  next
    case False
    with run obtain row vs g where
      row: "gradIrow_loop ext inp beta scales i = Some row"
      and vs: "rows (mat_vec n (simplex_jac (\<lambda>j. initialProbs inp (s0 + j))) row) ind = Some vs"
      and g: "write_subvec (fst st) (snd st) vs = Some g"
      and st': "st' = (g, snd st + length ind)"
      by (auto simp: initial_block_def Let_def ind_def n_def s0_def split: if_splits bind_splits)
    have row': "row = map (spec_initial_raw ext inp beta scales i) [0..<n]"
      using gradIrow_loop_value[OF row] by (simp add: n_def)
    have "vs = map (spec_jacobian_times n (\<lambda>j. initialProbs inp (s0 + j))
        (spec_initial_raw ext inp beta scales i)) ind"
      using rows_Some[OF vs] by (auto simp: row' ind mat_vec_spec)
    then have vs': "vs = spec_initial_block ext inp beta scales i"
      by (simp add: spec_initial_block_def Let_def ind n_def s0_def)
    have "length vs = length ind" using rows_Some[OF vs] by simp
    with write_subvec_appends[OF g] show ?thesis by (simp add: st' vs'[symmetric])
  qed
qed

lemma initial_pass_appends:
  fixes inp :: "real input"
  assumes run: "initial_pass ext inp beta scales st = Some st'"
    and bound: "snd st \<le> length (fst st)"
    and guard: "0 < accu_INZ inp \<or> spec_initial_segment ext inp beta scales = []"
  shows "appends (spec_initial_segment ext inp beta scales) st st'"
proof (cases "0 < accu_INZ inp")
  case True
  with run have "for_each [0..<dJ inp] (initial_block ext inp beta scales) st = Some st'"
    by (simp add: initial_pass_def)
  from for_each_appends[where seg = "spec_initial_block ext inp beta scales", OF _ bound this]
    initial_block_appends
  show ?thesis by (simp add: spec_initial_segment_def)
next
  case False
  with run guard bound show ?thesis by (simp add: initial_pass_def appends_refl)
qed

lemma sum_list_if_const:
  fixes F :: "'i \<Rightarrow> 'a::comm_monoid_add"
  shows "(\<Sum>x\<leftarrow>xs. if c then F x else 0) = (if c then (\<Sum>x\<leftarrow>xs. F x) else 0)"
  by (induction xs) simp_all

lemma alpha_dot_sum:
  fixes inp :: "real input"
  shows "alpha_dot inp alpha k t i = (\<Sum>s<dM inp. alpha s t k * transitionMatrix inp s i)"
  by (simp add: alpha_dot_def accu_sum)

lemma gradBrow_loop_value:
  fixes inp :: "real input"
  assumes run: "gradBrow_loop ext inp alpha beta scales r i = Some row"
  shows "row = map (spec_emission_raw ext inp alpha beta scales r i) [0..<nSymbols inp r]"
proof -
  define n where "n = nSymbols inp r"
  define tm where "tm k t j =
       (if obsArray inp k t r = int j
        then (if t = 0 then initk ext inp i k
              else (\<Sum>s<dM inp. alpha s (t - 1) k * transitionMatrix inp s i))
             * other_channels_product inp r i k t * beta i t k / scales t k
        else 0)" for k t j
  have first: "0 < dN inp \<and> length b = n \<and>
      (\<forall>j'<n. b ! j' = a ! j' + (if j' = j then tm k 0 j else 0))"
    if "gradBrow_first ext inp beta scales r i j k a = Some b" "length a = n" for j k a b
  proof -
    from that(1) obtain v where v: "obs_at inp k 0 r = Some v"
      by (auto simp: gradBrow_first_def split: bind_splits)
    then have N: "0 < dN inp" and v': "v = obsArray inp k 0 r"
      by (auto simp: obs_at_def at3_def dN_def split: if_splits)
    show ?thesis
    proof (cases "v = int j")
      case True
      with that(1) v obtain tmp ik y s where
        "emission_prod inp (\<lambda>r2. r2 \<noteq> r) i k 0 = Some tmp"
        "at2 (dM inp, dK inp) (initk ext inp) i k = Some ik"
        "at3 (aDims inp) beta i 0 k = Some y"
        "at2 (sDims inp) scales 0 k = Some s"
        "add_at a j (ik * tmp * y / s) = Some b"
        by (auto simp: gradBrow_first_def split: bind_splits)
      then have "add_at a j (tm k 0 j) = Some b"
        using True v' by (auto simp: tm_def dest!: emission_prod_other at3_Some at2_Some)
      from add_at_vec[OF this that(2)] N show ?thesis by simp
    next
      case False
      with that(1) v have "b = a" by (simp add: gradBrow_first_def)
      moreover have "tm k 0 j = 0" using False v' by (simp add: tm_def)
      ultimately show ?thesis using N that(2) by simp
    qed
  qed
  have later: "length b = n \<and> (\<forall>j'<n. b ! j' = a ! j' + (if j' = j then tm k (Suc t) j else 0))"
    if "gradBrow_later inp alpha beta scales r i j k t a = Some b" "length a = n" for j k t a b
  proof -
    from that(1) obtain v where v: "obs_at inp k (t + 1) r = Some v"
      by (auto simp: gradBrow_later_def split: bind_splits)
    then have v': "v = obsArray inp k (Suc t) r"
      by (auto simp: obs_at_def at3_def split: if_splits)
    show ?thesis
    proof (cases "v = int j")
      case True
      with that(1) v obtain tmp y s where
        "emission_prod inp (\<lambda>r2. r2 \<noteq> r) i k (t + 1) = Some tmp"
        "at3 (aDims inp) beta i (t + 1) k = Some y"
        "at2 (sDims inp) scales (t + 1) k = Some s"
        "add_at a j (alpha_dot inp alpha k t i * tmp * y / s) = Some b"
        by (auto simp: gradBrow_later_def split: bind_splits)
      then have "add_at a j (tm k (Suc t) j) = Some b"
        using True v'
        by (auto simp: tm_def alpha_dot_sum dest!: emission_prod_other at3_Some at2_Some)
      from add_at_vec[OF this that(2)] show ?thesis by simp
    next
      case False
      with that(1) v have "b = a" by (simp add: gradBrow_later_def)
      moreover have "tm k (Suc t) j = 0" using False v' by (simp add: tm_def)
      ultimately show ?thesis using that(2) by simp
    qed
  qed
  define body where "body = (\<lambda>j k (gradBrow :: real list). do {
         g \<leftarrow> gradBrow_first ext inp beta scales r i j k gradBrow;
         for_each [0..<dN inp - 1] (gradBrow_later inp alpha beta scales r i j k) g })"
  have lk: "length b = n \<and>
      (\<forall>j'<n. b ! j' = a ! j' + (if j' = j then (\<Sum>t<dN inp. tm k t j) else 0))"
    if "body j k a = Some b" "length a = n" for j k a b
  proof -
    from that(1) obtain g where
      g: "gradBrow_first ext inp beta scales r i j k a = Some g"
      and l: "for_each [0..<dN inp - 1] (gradBrow_later inp alpha beta scales r i j k) g = Some b"
      by (auto simp: body_def split: bind_splits)
    from first[OF g that(2)] have N: "0 < dN inp" and gl: "length g = n"
      and gv: "\<forall>j'<n. g ! j' = a ! j' + (if j' = j then tm k 0 j else 0)"
      by simp_all
    from for_each_vec_add[where body = "gradBrow_later inp alpha beta scales r i j k"
        and val = "\<lambda>t j'. if j' = j then tm k (Suc t) j else 0", OF later gl l]
    have bl: "length b = n"
      and bv: "\<forall>j'<n. b ! j' = g ! j' + (if j' = j then (\<Sum>t<dN inp - 1. tm k (Suc t) j) else 0)"
      by (simp_all add: sum_list_if_const sum_list_upt)
    have split: "(\<Sum>t<dN inp. tm k t j) = tm k 0 j + (\<Sum>t<dN inp - 1. tm k (Suc t) j)"
      using N sum.lessThan_Suc_shift[of "\<lambda>t. tm k t j" "dN inp - 1"] by simp
    show ?thesis using bl bv gv by (simp add: split add.assoc)
  qed
  have lj: "length b = n \<and>
      (\<forall>j'<n. b ! j' = a ! j' + (if j' = j then (\<Sum>k<dK inp. \<Sum>t<dN inp. tm k t j) else 0))"
    if "for_each [0..<dK inp] (body j) a = Some b" "length a = n" for j a b
    using for_each_vec_add[where body = "body j"
        and val = "\<lambda>k j'. if j' = j then (\<Sum>t<dN inp. tm k t j) else 0", OF lk that(2,1)]
    by (simp add: sum_list_if_const sum_list_upt)
  have "for_each [0..<n] (\<lambda>j. for_each [0..<dK inp] (body j)) (replicate n 0) = Some row"
    using run unfolding gradBrow_loop_def n_def body_def .
  from for_each_vec_add[where body = "\<lambda>j. for_each [0..<dK inp] (body j)"
      and val = "\<lambda>j j'. if j' = j then (\<Sum>k<dK inp. \<Sum>t<dN inp. tm k t j) else 0", OF lj _ this]
  have "length row = n \<and> (\<forall>j'<n. row ! j' = (\<Sum>k<dK inp. \<Sum>t<dN inp. tm k t j'))"
    by (simp add: sum_list_delta)
  then show ?thesis
    by (intro nth_equalityI) (simp_all add: n_def spec_emission_raw_def tm_def)
qed

lemma emission_row_appends:
  fixes inp :: "real input"
  assumes run: "emission_row ext inp alpha beta scales r i st = Some st'"
    and bound: "snd st \<le> length (fst st)"
  shows "appends (spec_emission_row ext inp alpha beta scales r i) st st'"
proof -
  define n where "n = nSymbols inp r"
  define ind where "ind = find_nz (dP inp - 1) (\<lambda>j. emissNZ inp i j r)"
  have ind: "ind = filter (\<lambda>j. emissNZ inp i j r \<noteq> 0) [0..<dP inp - 1]"
    by (simp add: ind_def find_nz_def)
  show ?thesis
  proof (cases "ind = []")
    case True
    with run have "st' = st"
      by (auto simp: emission_row_def Let_def ind_def split: if_splits)
    moreover have "spec_emission_row ext inp alpha beta scales r i = []"
      using True by (simp add: spec_emission_row_def ind)
    ultimately show ?thesis using bound by (simp add: appends_refl)
  next
    case False
    with run obtain row vs g where
      row: "gradBrow_loop ext inp alpha beta scales r i = Some row"
      and vs: "rows (mat_vec n (simplex_jac (\<lambda>j. emissionArray inp i j r)) row) ind = Some vs"
      and g: "write_subvec (fst st) (snd st) vs = Some g"
      and st': "st' = (g, snd st + length ind)"
      by (auto simp: emission_row_def Let_def ind_def n_def split: if_splits bind_splits)
    have row': "row = map (spec_emission_raw ext inp alpha beta scales r i) [0..<n]"
      using gradBrow_loop_value[OF row] by (simp add: n_def)
    have "\<forall>j\<in>set ind. j < n"
      using rows_Some[OF vs] by (simp add: mat_vec_def)
    then have "vs = map (spec_jacobian_times n (\<lambda>j. emissionArray inp i j r)
        (spec_emission_raw ext inp alpha beta scales r i)) ind"
      using rows_Some[OF vs] by (auto simp: row' mat_vec_spec)
    then have vs': "vs = spec_emission_row ext inp alpha beta scales r i"
      by (simp add: spec_emission_row_def ind n_def)
    have "length vs = length ind" using rows_Some[OF vs] by simp
    with write_subvec_appends[OF g] show ?thesis by (simp add: st' vs'[symmetric])
  qed
qed

lemma emission_pass_appends:
  fixes inp :: "real input"
  assumes run: "emission_pass ext inp alpha beta scales st = Some st'"
    and bound: "snd st \<le> length (fst st)"
    and guard: "0 < accu_BNZ inp \<or> spec_emission_segment ext inp alpha beta scales = []"
  shows "appends (spec_emission_segment ext inp alpha beta scales) st st'"
proof (cases "0 < accu_BNZ inp")
  case True
  have inner: "appends (concat (map (spec_emission_row ext inp alpha beta scales r)
        [0..<dM inp])) a b"
    if "for_each [0..<dM inp] (emission_row ext inp alpha beta scales r) a = Some b"
      "snd a \<le> length (fst a)" for r a b
    by (rule for_each_appends[OF _ that(2,1)]) (rule emission_row_appends)
  from run True have "for_each [0..<dRo inp] (\<lambda>r.
      for_each [0..<dM inp] (emission_row ext inp alpha beta scales r)) st = Some st'"
    by (simp add: emission_pass_def)
  from for_each_appends[where seg = "\<lambda>r. concat (map (spec_emission_row ext inp alpha beta scales r)
        [0..<dM inp])", OF _ bound this] inner
  show ?thesis by (simp add: spec_emission_segment_def)
next
  case False
  with run guard bound show ?thesis by (simp add: emission_pass_def appends_refl)
qed

section \<open>The mixture-coefficient pass\<close>

lemma add_subvec_vec:
  fixes g :: "real list"
  assumes "add_subvec g a q v = Some g'"
  shows "a + q \<le> length g \<and> length g' = length g \<and>
     (\<forall>p<length g. g' ! p = g ! p + (if a \<le> p \<and> p < a + q then v (p - a) else 0))"
proof -
  from assms have b: "a + q \<le> length g"
    and g': "g' = take a g @ map (\<lambda>l. g ! (a + l) + v l) [0..<q] @ drop (a + q) g"
    by (auto simp: add_subvec_def split: if_splits)
  have "g' ! p = g ! p + (if a \<le> p \<and> p < a + q then v (p - a) else 0)" if "p < length g" for p
  proof -
    consider "p < a" | "a \<le> p" "p < a + q" | "a + q \<le> p" by linarith
    then show ?thesis
    proof cases
      case 1
      with b show ?thesis by (simp add: g' nth_append)
    next
      case 2
      then have "p - a < q" by linarith
      with 2 b show ?thesis by (simp add: g' nth_append)
    next
      case 3
      then have "\<not> p < a" "\<not> p - a < q" "a + q + (p - a - q) = p" by linarith+
      with 3 b that show ?thesis by (simp add: g' nth_append)
    qed
  qed
  with b show ?thesis by (simp add: g')
qed

lemma sub_subvec_vec:
  fixes g :: "real list"
  assumes "sub_subvec g a q v = Some g'"
  shows "a + q \<le> length g \<and> length g' = length g \<and>
     (\<forall>p<length g. g' ! p = g ! p + (if a \<le> p \<and> p < a + q then - v (p - a) else 0))"
proof -
  have "add_subvec g a q (\<lambda>l. - v l) = Some g'"
    using assms by (auto simp: add_subvec_def sub_subvec_def split: if_splits)
  from add_subvec_vec[OF this] show ?thesis .
qed

lemma sum_list_upt_delta:
  fixes g :: "nat \<Rightarrow> 'a::comm_monoid_add"
  shows "(\<Sum>j\<leftarrow>[a..<b]. if j = j0 then g j else 0) = (if a \<le> j0 \<and> j0 < b then g j0 else 0)"
  by (simp add: interv_sum_list_conv_sum_set_nat)

lemma sum_list_zero:
  fixes f :: "'i \<Rightarrow> 'a::comm_monoid_add"
  assumes "\<And>x. x \<in> set xs \<Longrightarrow> f x = 0"
  shows "(\<Sum>x\<leftarrow>xs. f x) = 0"
  using assms by (induction xs) simp_all

lemma block_index_unique:
  fixes q :: nat
  assumes "l < q"
  shows "(q * a \<le> q * b + l \<and> q * b + l < q * a + q) \<longleftrightarrow> a = b"
proof
  assume h: "q * a \<le> q * b + l \<and> q * b + l < q * a + q"
  have "(q * b + l) div q = b" using assms by simp
  moreover have "(q * b + l) div q = a"
    using h by (intro div_nat_eqI) (simp_all add: mult.commute)
  ultimately show "a = b" by simp
next
  assume "a = b"
  with assms show "q * a \<le> q * b + l \<and> q * b + l < q * a + q" by simp
qed

lemma mixture_pass_value:
  fixes inp :: "real input"
  assumes run: "mixture_pass ext inp beta scales st = Some g'"
  shows "length g' = length (fst st) \<and> take (snd st) g' = take (snd st) (fst st) \<and>
     (\<forall>jj l. 1 \<le> jj \<and> jj < dJ inp \<and> l < coefs_nrow inp \<and>
        snd st + coefs_nrow inp * (jj - 1) + l < length (fst st) \<longrightarrow>
        g' ! (snd st + coefs_nrow inp * (jj - 1) + l) =
          fst st ! (snd st + coefs_nrow inp * (jj - 1) + l)
            + spec_mixture_entry ext inp beta scales jj l)"
proof -
  define q where "q = coefs_nrow inp"
  define c where "c = snd st"
  define n where "n = length (fst st)"
  define ns where "ns = numberOfStates inp"
  define mt where "mt jj k j l =
      all_channels_product inp j k 0 * beta j 0 k / scales 0 k * initk ext inp j k
          * X_in inp k l
          * (if block_start ns jj \<le> j \<and> j < cumsumstate ns jj
             then 1 - lweights ext inp jj k else - lweights ext inp jj k)" for jj k j l
  define val where "val jj k j p =
      (if c + q * (jj - 1) \<le> p \<and> p < c + q * (jj - 1) + q
       then mt jj k j (p - (c + q * (jj - 1))) else 0)" for jj k j p
  have step: "length b = n \<and> (\<forall>p<n. b ! p = a ! p + val jj k j p)"
    if "mixture_step ext inp beta scales c jj k j a = Some b" "length a = n" for jj k j a b
  proof -
    from that(1)[unfolded mixture_step_def Let_def q_def[symmetric] ns_def[symmetric]]
    obtain tmp y s ik w where r:
      "emission_prod inp (\<lambda>r. True) j k 0 = Some tmp"
      "at3 (aDims inp) beta j 0 k = Some y"
      "at2 (sDims inp) scales 0 k = Some s"
      "at2 (dM inp, dK inp) (initk ext inp) j k = Some ik"
      "at2 (dJ inp, dK inp) (lweights ext inp) jj k = Some w"
      and w: "(if block_start ns jj \<le> j \<and> j < cumsumstate ns jj
        then add_subvec a (c + q * (jj - 1)) q (\<lambda>l. tmp * y / s * ik * X_in inp k l * (1 - w))
        else sub_subvec a (c + q * (jj - 1)) q (\<lambda>l. tmp * y / s * ik * X_in inp k l * w))
        = Some b"
      by (auto split: bind_splits)
    have v: "tmp = all_channels_product inp j k 0" "y = beta j 0 k" "s = scales 0 k"
      "ik = initk ext inp j k" "w = lweights ext inp jj k"
      using r by (auto dest!: emission_prod_all at3_Some at2_Some)
    show ?thesis
    proof (cases "block_start ns jj \<le> j \<and> j < cumsumstate ns jj")
      case True
      with w have "add_subvec a (c + q * (jj - 1)) q
          (\<lambda>l. tmp * y / s * ik * X_in inp k l * (1 - w)) = Some b" by simp
      moreover have "(\<lambda>l. tmp * y / s * ik * X_in inp k l * (1 - w)) = mt jj k j"
        using True by (intro ext) (simp add: mt_def v)
      ultimately have "add_subvec a (c + q * (jj - 1)) q (mt jj k j) = Some b"
        by (simp only:)
      from add_subvec_vec[OF this] that(2) show ?thesis
        by (simp add: val_def)
    next
      case False
      with w have "sub_subvec a (c + q * (jj - 1)) q
          (\<lambda>l. tmp * y / s * ik * X_in inp k l * w) = Some b" by simp
      moreover have "(\<lambda>l. tmp * y / s * ik * X_in inp k l * w) = (\<lambda>l. - mt jj k j l)"
        using False by (intro ext) (auto simp: mt_def v)
      ultimately have "sub_subvec a (c + q * (jj - 1)) q (\<lambda>l. - mt jj k j l) = Some b"
        by (simp only:)
      from sub_subvec_vec[OF this] that(2) show ?thesis
        by (simp add: val_def)
    qed
  qed
  have lj: "length b = n \<and> (\<forall>p<n. b ! p = a ! p + (\<Sum>j<dM inp. val jj k j p))"
    if "for_each [0..<dM inp] (mixture_step ext inp beta scales c jj k) a = Some b" "length a = n"
    for jj k a b
    using for_each_vec_add[where body = "mixture_step ext inp beta scales c jj k"
        and val = "val jj k", OF step that(2,1)]
    by (simp add: sum_list_upt)
  have lk: "length b = n \<and> (\<forall>p<n. b ! p = a ! p + (\<Sum>k<dK inp. \<Sum>j<dM inp. val jj k j p))"
    if "for_each [0..<dK inp] (\<lambda>k. for_each [0..<dM inp]
          (mixture_step ext inp beta scales c jj k)) a = Some b" "length a = n"
    for jj a b
    using for_each_vec_add[where body = "\<lambda>k. for_each [0..<dM inp]
          (mixture_step ext inp beta scales c jj k)"
        and val = "\<lambda>k p. \<Sum>j<dM inp. val jj k j p", OF lj that(2,1)]
    by (simp add: sum_list_upt)
  have "for_each [1..<dJ inp] (\<lambda>jj. for_each [0..<dK inp] (\<lambda>k. for_each [0..<dM inp]
      (mixture_step ext inp beta scales c jj k))) (fst st) = Some g'"
    using run unfolding mixture_pass_def c_def .
  from for_each_vec_add[where body = "\<lambda>jj. for_each [0..<dK inp] (\<lambda>k. for_each [0..<dM inp]
      (mixture_step ext inp beta scales c jj k))"
      and val = "\<lambda>jj p. \<Sum>k<dK inp. \<Sum>j<dM inp. val jj k j p", OF lk n_def[symmetric] this]
  have len: "length g' = n"
    and all: "\<forall>p<n. g' ! p = fst st ! p + (\<Sum>jj\<leftarrow>[1..<dJ inp]. \<Sum>k<dK inp. \<Sum>j<dM inp. val jj k j p)"
    by blast+
  have low: "g' ! p = fst st ! p" if "p < c" "p < n" for p
  proof -
    have "val jj k j p = 0" for jj k j using that(1) by (simp add: val_def)
    with all that(2) show ?thesis by simp
  qed
  have tk: "take c g' = take c (fst st)"
    by (rule nth_equalityI) (simp_all add: len n_def low)
  have hi: "g' ! (c + q * (jj0 - 1) + l) =
      fst st ! (c + q * (jj0 - 1) + l) + spec_mixture_entry ext inp beta scales jj0 l"
    if "1 \<le> jj0" "jj0 < dJ inp" "l < q" "c + q * (jj0 - 1) + l < n" for jj0 l
  proof -
    have v: "val jj k j (c + q * (jj0 - 1) + l) = (if jj = jj0 then mt jj0 k j l else 0)"
      if "jj \<in> set [1..<dJ inp]" for jj k j
    proof -
      have "(q * (jj - 1) \<le> q * (jj0 - 1) + l \<and> q * (jj0 - 1) + l < q * (jj - 1) + q)
          \<longleftrightarrow> jj - 1 = jj0 - 1"
        by (rule block_index_unique[OF \<open>l < q\<close>])
      moreover have "jj - 1 = jj0 - 1 \<longleftrightarrow> jj = jj0" using that \<open>1 \<le> jj0\<close> by auto
      ultimately show ?thesis by (auto simp: val_def)
    qed
    have w: "(\<Sum>k<dK inp. \<Sum>j<dM inp. val jj k j (c + q * (jj0 - 1) + l))
        = (if jj = jj0 then (\<Sum>k<dK inp. \<Sum>j<dM inp. mt jj0 k j l) else 0)"
      if "jj \<in> set [1..<dJ inp]" for jj
      unfolding v[OF that] by simp
    have "(\<Sum>jj\<leftarrow>[1..<dJ inp]. \<Sum>k<dK inp. \<Sum>j<dM inp. val jj k j (c + q * (jj0 - 1) + l))
        = (\<Sum>jj\<leftarrow>[1..<dJ inp]. if jj = jj0 then (\<Sum>k<dK inp. \<Sum>j<dM inp. mt jj0 k j l) else 0)"
      by (rule arg_cong[where f = sum_list], rule map_cong[OF refl]) (rule w)
    also have "\<dots> = (\<Sum>k<dK inp. \<Sum>j<dM inp. mt jj0 k j l)"
      using that(1,2) by (simp add: sum_list_upt_delta)
    also have "\<dots> = spec_mixture_entry ext inp beta scales jj0 l"
      by (simp add: spec_mixture_entry_def Let_def mt_def ns_def)
    finally show ?thesis using all that(4) by simp
  qed
  show ?thesis using len tk hi by (simp add: n_def c_def q_def)
qed

section \<open>Counting the free entries\<close>

lemma sum_lessThan_add:
  fixes f :: "nat \<Rightarrow> 'a::comm_monoid_add"
  shows "(\<Sum>s<a + b. f s) = (\<Sum>s<a. f s) + (\<Sum>j<b. f (a + j))"
  by (induction b) (simp_all add: add.assoc)

lemma sum_blocks:
  fixes f :: "nat \<Rightarrow> 'a::comm_monoid_add"
  shows "(\<Sum>s<sum_list ns. f s) = (\<Sum>jj<length ns. \<Sum>j<ns ! jj. f (block_start ns jj + j))"
proof (induction ns rule: rev_induct)
  case Nil
  then show ?case by simp
next
  case (snoc n ns)
  have old: "(\<Sum>jj<length ns. \<Sum>j<(ns @ [n]) ! jj. f (block_start (ns @ [n]) jj + j))
      = (\<Sum>jj<length ns. \<Sum>j<ns ! jj. f (block_start ns jj + j))"
    by (rule sum.cong) (simp_all add: nth_append block_start_eq)
  have new: "block_start (ns @ [n]) (length ns) = sum_list ns"
    by (simp add: block_start_eq)
  show ?case
    by (simp add: sum_lessThan_add snoc.IH old new)
qed

lemma length_filter_upt:
  "int (length (filter P [0..<n])) = (\<Sum>j<n. if P j then 1 else 0)"
  by (induction n) simp_all

lemma length_concat_upt:
  "int (length (concat (map f [0..<n]))) = (\<Sum>j<n. int (length (f j)))"
  by (induction n) simp_all

lemma length_filter_product:
  "length (filter P (List.product xs ys)) = (\<Sum>x\<leftarrow>xs. length (filter (\<lambda>y. P (x, y)) ys))"
  by (induction xs) (simp_all add: filter_map o_def)

lemma take_sum_mono:
  fixes ns :: "nat list"
  assumes "m \<le> n"
  shows "sum_list (take m ns) \<le> sum_list (take n ns)"
proof -
  have "take n ns = take m ns @ take (n - m) (drop m ns)"
    using assms by (metis le_add_diff_inverse take_add)
  then show ?thesis by simp
qed

lemma blocks_ordered:
  assumes "b < b'" and "b' < length ns"
  shows "cumsumstate ns b \<le> block_start ns b'"
  using assms take_sum_mono[of "Suc b" b' ns]
  by (simp add: block_start_eq cumsumstate_def)

lemma block_unique:
  assumes "b < length ns" "b' < length ns"
    and "block_start ns b \<le> x" "x < cumsumstate ns b"
    and "block_start ns b' \<le> x" "x < cumsumstate ns b'"
  shows "b = b'"
proof (rule ccontr)
  assume "b \<noteq> b'"
  then consider "b < b'" | "b' < b" by linarith
  then show False
  proof cases
    case 1
    from blocks_ordered[OF 1 assms(2)] assms(4,5) show False by simp
  next
    case 2
    from blocks_ordered[OF 2 assms(1)] assms(3,6) show False by simp
  qed
qed

lemma same_block_iff:
  assumes "jj < length ns" "i < ns ! jj" "jj' < length ns" "j < ns ! jj'"
  shows "same_block ns (block_start ns jj + i) (block_start ns jj' + j) \<longleftrightarrow> jj = jj'"
proof
  assume "same_block ns (block_start ns jj + i) (block_start ns jj' + j)"
  then obtain b where b: "b < length ns"
    "block_start ns b \<le> block_start ns jj + i" "block_start ns jj + i < cumsumstate ns b"
    "block_start ns b \<le> block_start ns jj' + j" "block_start ns jj' + j < cumsumstate ns b"
    by (auto simp: same_block_def list_ex_iff)
  have "b = jj"
    by (rule block_unique[OF b(1) assms(1) b(2,3)]) (use assms in \<open>simp_all add: cumsumstate_eq\<close>)
  moreover have "b = jj'"
    by (rule block_unique[OF b(1) assms(3) b(4,5)]) (use assms in \<open>simp_all add: cumsumstate_eq\<close>)
  ultimately show "jj = jj'" by simp
next
  assume "jj = jj'"
  with assms show "same_block ns (block_start ns jj + i) (block_start ns jj' + j)"
    by (auto simp: same_block_def list_ex_iff cumsumstate_eq intro!: bexI[of _ jj])
qed

lemma masks_wf_D:
  assumes "masks_wf inp"
  shows "dRo inp = dR inp" and "sum_list (numberOfStates inp) = dM inp"
    and "\<And>i j. i < dM inp \<Longrightarrow> j < dM inp \<Longrightarrow>
      transNZ inp i j = 0 \<or> transNZ inp i j = 1 \<and> same_block (numberOfStates inp) i j"
    and "\<And>r v i. r < dR inp \<Longrightarrow> v < dP inp - 1 \<Longrightarrow> i < dM inp \<Longrightarrow>
      emissNZ inp i v r = 0 \<or> emissNZ inp i v r = 1"
    and "\<And>i. i < dM inp \<Longrightarrow> initNZ inp i = 0 \<or> initNZ inp i = 1"
  using assms by (auto simp: masks_wf_def list_all_iff)

lemma indicator_int: "x = 0 \<or> x = 1 \<Longrightarrow> (if x \<noteq> 0 then 1 else 0) = x" for x :: int
  by auto

lemma cumsumstate_le: "jj < length ns \<Longrightarrow> cumsumstate ns jj \<le> sum_list ns"
  using take_sum_mono[of "Suc jj" "length ns" ns] by (simp add: cumsumstate_def)

lemma block_state_bound:
  assumes "jj < length ns" "i < ns ! jj"
  shows "block_start ns jj + i < sum_list ns"
  using cumsumstate_le[OF assms(1)] assms by (simp add: cumsumstate_eq)

lemma initial_free_count:
  assumes wf: "masks_wf inp"
  shows "int (free_count_I inp) = total_INZ inp"
    and "total_INZ inp = int (nnz_INZ inp)"
proof -
  let ?ns = "numberOfStates inp"
  let ?c = "\<lambda>s. if initNZ inp s \<noteq> 0 then 1 else (0::int)"
  have M: "sum_list ?ns = dM inp" by (rule masks_wf_D(2)[OF wf])
  have ind: "?c s = initNZ inp s" if "s < dM inp" for s
    by (rule indicator_int[OF masks_wf_D(5)[OF wf that]])
  have a: "total_INZ inp = (\<Sum>s<dM inp. ?c s)"
    by (simp add: total_INZ_def accu_sum ind)
  have "int (free_count_I inp)
      = (\<Sum>jj<length ?ns. \<Sum>j<?ns ! jj. ?c (block_start ?ns jj + j))"
    by (simp add: free_count_I_def Let_def dJ_def find_nz_def sum_list_upt length_filter_upt)
  also have "\<dots> = (\<Sum>s<sum_list ?ns. ?c s)" by (rule sum_blocks[symmetric])
  finally show "int (free_count_I inp) = total_INZ inp"
    by (simp add: a M)
  show "total_INZ inp = int (nnz_INZ inp)"
    by (simp add: a nnz_INZ_def length_filter_upt)
qed

lemma emission_free_count:
  assumes wf: "masks_wf inp"
  shows "int (free_count_B inp) = total_BNZ inp"
    and "total_BNZ inp = int (nnz_BNZ inp)"
proof -
  let ?c = "\<lambda>i v r. if emissNZ inp i v r \<noteq> 0 then 1 else (0::int)"
  have R: "dRo inp = dR inp" by (rule masks_wf_D(1)[OF wf])
  have ind: "?c i v r = emissNZ inp i v r" if "r < dR inp" "v < dP inp - 1" "i < dM inp" for r v i
    by (rule indicator_int[OF masks_wf_D(4)[OF wf that]])
  have a: "total_BNZ inp = (\<Sum>r<dR inp. \<Sum>v<dP inp - 1. \<Sum>i<dM inp. ?c i v r)"
    by (simp add: total_BNZ_def accu_sum ind)
  have "int (free_count_B inp)
      = (\<Sum>r<dR inp. \<Sum>i<dM inp. \<Sum>v<dP inp - 1. ?c i v r)"
    by (simp add: free_count_B_def R find_nz_def sum_list_upt length_filter_upt)
  also have "\<dots> = (\<Sum>r<dR inp. \<Sum>v<dP inp - 1. \<Sum>i<dM inp. ?c i v r)"
    by (rule sum.cong[OF refl]) (rule sum.swap)
  finally show "int (free_count_B inp) = total_BNZ inp"
    by (simp add: a)
  have "int (nnz_BNZ inp) = (\<Sum>r<dR inp. \<Sum>v<dP inp - 1. \<Sum>i<dM inp. ?c i v r)"
    by (simp add: nnz_BNZ_def length_filter_product sum_list_upt length_filter_upt
        case_prod_unfold)
  then show "total_BNZ inp = int (nnz_BNZ inp)" by (simp add: a)
qed

lemma transition_free_count:
  assumes wf: "masks_wf inp"
  shows "int (free_count_A inp) = total_ANZ inp"
    and "total_ANZ inp = int (nnz_ANZ inp)"
proof -
  let ?ns = "numberOfStates inp"
  let ?s0 = "block_start ?ns"
  let ?c = "\<lambda>i j. if transNZ inp i j \<noteq> 0 then 1 else (0::int)"
  have M: "sum_list ?ns = dM inp" by (rule masks_wf_D(2)[OF wf])
  have ind: "?c i j = transNZ inp i j" if "i < dM inp" "j < dM inp" for i j
    using masks_wf_D(3)[OF wf that] by auto
  have a: "total_ANZ inp = (\<Sum>i<dM inp. \<Sum>j<dM inp. ?c i j)"
  proof -
    have "total_ANZ inp = (\<Sum>j<dM inp. \<Sum>i<dM inp. transNZ inp i j)"
      by (simp add: total_ANZ_def accu_sum)
    also have "\<dots> = (\<Sum>i<dM inp. \<Sum>j<dM inp. transNZ inp i j)"
      by (rule sum.swap)
    also have "\<dots> = (\<Sum>i<dM inp. \<Sum>j<dM inp. ?c i j)"
      by (intro sum.cong refl) (simp add: ind)
    finally show ?thesis .
  qed
  have row: "(\<Sum>j<dM inp. ?c (?s0 jj + i) j) = (\<Sum>j<?ns ! jj. ?c (?s0 jj + i) (?s0 jj + j))"
    if jj: "jj < length ?ns" and i: "i < ?ns ! jj" for jj i
  proof -
    have off: "(\<Sum>j<?ns ! jj'. ?c (?s0 jj + i) (?s0 jj' + j)) = 0"
      if "jj' \<in> {..<length ?ns} - {jj}" for jj'
    proof (rule sum.neutral, rule ballI)
      fix j assume "j \<in> {..<?ns ! jj'}"
      with that have jj': "jj' < length ?ns" "jj' \<noteq> jj" and j: "j < ?ns ! jj'" by simp_all
      have "transNZ inp (?s0 jj + i) (?s0 jj' + j) = 0 \<or>
          transNZ inp (?s0 jj + i) (?s0 jj' + j) = 1 \<and> same_block ?ns (?s0 jj + i) (?s0 jj' + j)"
        using block_state_bound[OF jj i] block_state_bound[OF jj'(1) j]
        by (intro masks_wf_D(3)[OF wf]) (simp_all add: M)
      moreover have "\<not> same_block ?ns (?s0 jj + i) (?s0 jj' + j)"
        using same_block_iff[OF jj i jj'(1) j] jj'(2) by simp
      ultimately show "?c (?s0 jj + i) (?s0 jj' + j) = 0" by simp
    qed
    have "(\<Sum>j<dM inp. ?c (?s0 jj + i) j)
        = (\<Sum>jj'<length ?ns. \<Sum>j<?ns ! jj'. ?c (?s0 jj + i) (?s0 jj' + j))"
      unfolding M[symmetric] by (rule sum_blocks)
    also have "\<dots> = (\<Sum>jj'\<in>{jj}. \<Sum>j<?ns ! jj'. ?c (?s0 jj + i) (?s0 jj' + j))"
      by (rule sum.mono_neutral_right) (use jj off in auto)
    finally show ?thesis by simp
  qed
  have "int (free_count_A inp)
      = (\<Sum>jj<length ?ns. \<Sum>i<?ns ! jj. \<Sum>j<?ns ! jj. ?c (?s0 jj + i) (?s0 jj + j))"
    by (simp add: free_count_A_def Let_def dJ_def find_nz_def sum_list_upt length_filter_upt)
  also have "\<dots> = (\<Sum>jj<length ?ns. \<Sum>i<?ns ! jj. \<Sum>j<dM inp. ?c (?s0 jj + i) j)"
    by (rule sum.cong[OF refl], rule sum.cong[OF refl]) (simp add: row)
  also have "\<dots> = (\<Sum>i<sum_list ?ns. \<Sum>j<dM inp. ?c i j)"
    by (rule sum_blocks[symmetric])
  finally show "int (free_count_A inp) = total_ANZ inp"
    by (simp add: a M)
  have "int (nnz_ANZ inp) = (\<Sum>i<dM inp. \<Sum>j<dM inp. ?c i j)"
    by (simp add: nnz_ANZ_def length_filter_product sum_list_upt length_filter_upt)
  then show "total_ANZ inp = int (nnz_ANZ inp)" by (simp add: a)
qed

text \<open>The segments of the specification have these lengths.\<close>

lemma length_concat_map: "length (concat (map f xs)) = sum_list (map (\<lambda>x. length (f x)) xs)"
  by (simp add: length_concat o_def)

lemma spec_segment_lengths:
  fixes inp :: "real input"
  shows "length (spec_transition_segment inp alpha beta scales) = free_count_A inp"
    and "length (spec_emission_segment ext inp alpha beta scales) = free_count_B inp"
    and "length (spec_initial_segment ext inp beta scales) = free_count_I inp"
  by (simp_all add: spec_transition_segment_def spec_transition_row_def
      spec_emission_segment_def spec_emission_row_def
      spec_initial_segment_def spec_initial_block_def
      free_count_A_def free_count_B_def free_count_I_def Let_def find_nz_def length_concat_map)

lemma transition_count:
  fixes inp :: "real input"
  assumes wf: "masks_wf inp"
  shows "int (length (spec_transition_segment inp alpha beta scales)) = total_ANZ inp"
    and "total_ANZ inp = int (nnz_ANZ inp)"
  using transition_free_count[OF wf] by (simp_all add: spec_segment_lengths)

lemma emission_count:
  fixes inp :: "real input"
  assumes wf: "masks_wf inp"
  shows "int (length (spec_emission_segment ext inp alpha beta scales)) = total_BNZ inp"
    and "total_BNZ inp = int (nnz_BNZ inp)"
  using emission_free_count[OF wf] by (simp_all add: spec_segment_lengths)

lemma initial_count:
  fixes inp :: "real input"
  assumes wf: "masks_wf inp"
  shows "int (length (spec_initial_segment ext inp beta scales)) = total_INZ inp"
    and "total_INZ inp = int (nnz_INZ inp)"
  using initial_free_count[OF wf] by (simp_all add: spec_segment_lengths)

text \<open>Within the 32-bit range the wrapped sums are the counts.\<close>

lemma sword32_id: "- (2 ^ 31) \<le> x \<Longrightarrow> x < 2 ^ 31 \<Longrightarrow> sword32 x = x"
  by (simp add: sword32_def)

lemma uword32_id: "0 \<le> x \<Longrightarrow> x < 2 ^ 32 \<Longrightarrow> uword32 x = nat x"
  by (simp add: uword32_def)

lemma accu_total:
  "accu_ANZ inp = sword32 (total_ANZ inp)"
  "accu_BNZ inp = sword32 (total_BNZ inp)"
  "accu_INZ inp = sword32 (total_INZ inp)"
  by (simp_all add: accu_ANZ_def accu_BNZ_def accu_INZ_def total_ANZ_def total_BNZ_def
      total_INZ_def)

lemma counts_fit_accu:
  assumes wf: "masks_wf inp" and fit: "counts_fit inp"
  shows "accu_ANZ inp = int (nnz_ANZ inp)"
    and "accu_BNZ inp = int (nnz_BNZ inp)"
    and "accu_INZ inp = int (nnz_INZ inp)"
proof -
  have b: "int (nnz_ANZ inp) < 2 ^ 31" "int (nnz_BNZ inp) < 2 ^ 31" "int (nnz_INZ inp) < 2 ^ 31"
    using fit unfolding counts_fit_def of_nat_add by linarith+
  show "accu_ANZ inp = int (nnz_ANZ inp)"
    unfolding accu_total transition_free_count(2)[OF wf] using b(1) by (intro sword32_id) simp_all
  show "accu_BNZ inp = int (nnz_BNZ inp)"
    unfolding accu_total emission_free_count(2)[OF wf] using b(2) by (intro sword32_id) simp_all
  show "accu_INZ inp = int (nnz_INZ inp)"
    unfolding accu_total initial_free_count(2)[OF wf] using b(3) by (intro sword32_id) simp_all
qed

lemma free_count_nnz:
  assumes wf: "masks_wf inp"
  shows "free_count_A inp = nnz_ANZ inp"
    and "free_count_B inp = nnz_BNZ inp"
    and "free_count_I inp = nnz_INZ inp"
  using transition_free_count[OF wf] emission_free_count[OF wf] initial_free_count[OF wf]
  by simp_all

lemma grad_size_fit:
  assumes wf: "masks_wf inp" and fit: "counts_fit inp" and J: "0 < dJ inp"
  shows "grad_size inp =
     nnz_ANZ inp + nnz_BNZ inp + nnz_INZ inp + (dJ inp - 1) * coefs_nrow inp"
proof -
  define n where "n = nnz_ANZ inp + nnz_BNZ inp + nnz_INZ inp + (dJ inp - 1) * coefs_nrow inp"
  have n: "int n < 2 ^ 31" using fit unfolding counts_fit_def n_def .
  have m: "int (dJ inp) - 1 = int (dJ inp - 1)" using J by linarith
  have ab: "int (nnz_ANZ inp) + int (nnz_BNZ inp) \<le> int n"
    and abi: "int (nnz_ANZ inp) + int (nnz_BNZ inp) + int (nnz_INZ inp) \<le> int n"
    unfolding n_def by linarith+
  have 1: "sword32 (int (nnz_ANZ inp) + int (nnz_BNZ inp))
      = int (nnz_ANZ inp) + int (nnz_BNZ inp)"
    using ab n by (intro sword32_id) linarith+
  have 2: "sword32 (int (nnz_ANZ inp) + int (nnz_BNZ inp) + int (nnz_INZ inp))
      = int (nnz_ANZ inp) + int (nnz_BNZ inp) + int (nnz_INZ inp)"
    using abi n by (intro sword32_id) linarith+
  have 3: "int (nnz_ANZ inp) + int (nnz_BNZ inp) + int (nnz_INZ inp)
      + int (dJ inp - 1) * int (coefs_nrow inp) = int n"
    unfolding n_def by (simp only: of_nat_add of_nat_mult)
  have "grad_size inp = uword32 (int n)"
    unfolding grad_size_def counts_fit_accu[OF wf fit] 1 2 m 3 ..
  also have "\<dots> = n" using n by (simp add: uword32_id)
  finally show ?thesis unfolding n_def .
qed

lemma transition_count_fit:
  fixes inp :: "real input"
  assumes wf: "masks_wf inp" and fit: "counts_fit inp"
  shows "int (length (spec_transition_segment inp alpha beta scales)) = accu_ANZ inp"
    and "accu_ANZ inp = int (nnz_ANZ inp)"
  using transition_count[OF wf] counts_fit_accu(1)[OF wf fit] by simp_all

lemma emission_count_fit:
  fixes inp :: "real input"
  assumes wf: "masks_wf inp" and fit: "counts_fit inp"
  shows "int (length (spec_emission_segment ext inp alpha beta scales)) = accu_BNZ inp"
    and "accu_BNZ inp = int (nnz_BNZ inp)"
  using emission_count[OF wf] counts_fit_accu(2)[OF wf fit] by simp_all

lemma initial_count_fit:
  fixes inp :: "real input"
  assumes wf: "masks_wf inp" and fit: "counts_fit inp"
  shows "int (length (spec_initial_segment ext inp beta scales)) = accu_INZ inp"
    and "accu_INZ inp = int (nnz_INZ inp)"
  using initial_count[OF wf] counts_fit_accu(3)[OF wf fit] by simp_all

section \<open>The layout of the returned gradient\<close>

lemma length_concat_fixed:
  "length (concat (map (\<lambda>x. map (f x) [0..<q]) xs)) = q * length xs"
  by (induction xs) simp_all

lemma nth_concat_fixed:
  assumes "i < length xs" and "l < q"
  shows "concat (map (\<lambda>x. map (f x) [0..<q]) xs) ! (q * i + l) = f (xs ! i) l"
  using assms
proof (induction xs arbitrary: i)
  case Nil
  then show ?case by simp
next
  case (Cons x xs)
  show ?case
  proof (cases i)
    case 0
    with Cons.prems show ?thesis by (simp add: nth_append)
  next
    case (Suc i')
    with Cons.prems have "i' < length xs" by simp
    from Cons.IH[OF this Cons.prems(2)] Suc show ?thesis
      by (simp add: nth_append add.assoc)
  qed
qed

lemma appends_from_zero:
  assumes "appends seg (g, 0) st'"
  shows "fst st' = seg @ drop (length seg) g" and "snd st' = length seg"
    and "length seg \<le> length g"
  using assms by (simp_all add: appends_def)

lemma guard_from_count: "int (length xs) = a \<Longrightarrow> 0 < a \<or> xs = []"
  by (cases xs) auto

lemma objectivex_layout:
  fixes inp :: "real input"
  assumes run: "objectivex ext inp = Some (obj, grad)" and fin: "weights_finite ext inp"
    and wf: "masks_wf inp" and fit: "counts_fit inp"
  shows "\<exists>alpha scales beta.
     internalForwardx ext (eDims inp) (oDims inp) (transitionMatrix inp) (emissionArray inp)
       (initk ext inp) (obsArray inp) = Some (alpha, scales) \<and>
     internalBackward ext (eDims inp) (oDims inp) (transitionMatrix inp) (emissionArray inp)
       (obsArray inp) scales = Some beta \<and>
     grad = map uminus (spec_transition_segment inp alpha beta scales
       @ spec_emission_segment ext inp alpha beta scales
       @ spec_initial_segment ext inp beta scales
       @ spec_mixture_segment ext inp beta scales)"
proof -
  from objectivex_normal[OF run fin] obtain alpha scales beta st1 st2 st3 g where
    fw: "internalForwardx ext (eDims inp) (oDims inp) (transitionMatrix inp) (emissionArray inp)
      (initk ext inp) (obsArray inp) = Some (alpha, scales)"
    and bw: "internalBackward ext (eDims inp) (oDims inp) (transitionMatrix inp)
      (emissionArray inp) (obsArray inp) scales = Some beta"
    and p1: "transition_pass inp alpha beta scales (replicate (grad_size inp) 0, 0) = Some st1"
    and p2: "emission_pass ext inp alpha beta scales st1 = Some st2"
    and p3: "initial_pass ext inp beta scales st2 = Some st3"
    and p4: "mixture_pass ext inp beta scales st3 = Some g"
    and grad: "grad = map uminus g"
    and J: "0 < dJ inp"
    by blast
  define A where "A = spec_transition_segment inp alpha beta scales"
  define B where "B = spec_emission_segment ext inp alpha beta scales"
  define I where "I = spec_initial_segment ext inp beta scales"
  define X where "X = spec_mixture_segment ext inp beta scales"
  define q where "q = coefs_nrow inp"
  define n where "n = grad_size inp"
  define g0 :: "real list" where "g0 = replicate n 0"
  have lA: "int (length A) = accu_ANZ inp" unfolding A_def by (rule transition_count_fit(1)[OF wf fit])
  have lB: "int (length B) = accu_BNZ inp" unfolding B_def by (rule emission_count_fit(1)[OF wf fit])
  have lI: "int (length I) = accu_INZ inp" unfolding I_def by (rule initial_count_fit(1)[OF wf fit])
  have lX: "length X = q * (dJ inp - 1)"
    by (simp add: X_def spec_mixture_segment_def length_concat_fixed q_def)
  have n: "n = length A + length B + length I + q * (dJ inp - 1)"
  proof -
    have "int (length A) = int (nnz_ANZ inp)" "int (length B) = int (nnz_BNZ inp)"
      "int (length I) = int (nnz_INZ inp)"
      by (simp_all only: lA lB lI counts_fit_accu[OF wf fit])
    then show ?thesis
      unfolding n_def q_def grad_size_fit[OF wf fit J] by (simp add: mult.commute)
  qed
  have p1': "transition_pass inp alpha beta scales (g0, 0) = Some st1"
    using p1 by (simp only: g0_def n_def)
  have a1: "appends A (g0, 0) st1"
    unfolding A_def
    by (rule transition_pass_appends[OF p1'])
       (simp, rule guard_from_count[OF lA[unfolded A_def]])
  have a2: "appends B st1 st2"
    unfolding B_def
    by (rule emission_pass_appends[OF p2 appends_bound[OF a1]]) (rule guard_from_count[OF lB[unfolded B_def]])
  have a3: "appends I st2 st3"
    unfolding I_def
    by (rule initial_pass_appends[OF p3 appends_bound[OF a2]]) (rule guard_from_count[OF lI[unfolded I_def]])
  have "appends (A @ B @ I) (g0, 0) st3"
    using appends_trans[OF a1 appends_trans[OF a2 a3]] by simp
  from appends_from_zero[OF this]
  have g3: "fst st3 = (A @ B @ I) @ drop (length (A @ B @ I)) g0"
    and c3: "snd st3 = length (A @ B @ I)" by simp_all
  define S where "S = A @ B @ I"
  define c where "c = snd st3"
  have cl: "c = length S" by (simp add: c_def c3 S_def)
  have cn: "n = c + q * (dJ inp - 1)" by (simp add: n cl S_def)
  have g3': "fst st3 = S @ replicate (q * (dJ inp - 1)) 0"
    by (simp add: g3 g0_def n S_def)
  have l3: "length (fst st3) = n" by (simp add: g3' cn cl)
  note mv = mixture_pass_value[OF p4, folded c_def q_def, unfolded l3]
  have lg: "length g = n" using mv by blast
  have "take c g = take c (fst st3)" using mv by blast
  then have tk: "take c g = S" by (simp add: g3' cl)
  have hi: "g ! (c + q * (jj - 1) + l) = fst st3 ! (c + q * (jj - 1) + l)
          + spec_mixture_entry ext inp beta scales jj l"
    if "1 \<le> jj" "jj < dJ inp" "l < q" "c + q * (jj - 1) + l < n" for jj l
    using mv that by blast
  have "g = S @ X"
  proof (rule nth_equalityI)
    show "length g = length (S @ X)" by (simp add: lg cn cl lX)
  next
    fix p assume "p < length g"
    then have pn: "p < n" by (simp add: lg)
    show "g ! p = (S @ X) ! p"
    proof (cases "p < c")
      case True
      then have "g ! p = take c g ! p" by simp
      also have "\<dots> = S ! p" by (simp only: tk)
      also have "\<dots> = (S @ X) ! p"
        using True by (simp add: nth_append cl)
      finally show ?thesis .
    next
      case False
      define d where "d = p - c"
      have d: "d < q * (dJ inp - 1)" and p: "p = c + d" using False pn by (simp_all add: d_def cn)
      then have q0: "0 < q" by (cases q) simp_all
      define i where "i = d div q"
      define l where "l = d mod q"
      have l: "l < q" using q0 by (simp add: l_def)
      have dil: "d = q * i + l" by (simp add: i_def l_def)
      have i: "i < dJ inp - 1"
        using d q0 by (simp add: i_def less_mult_imp_div_less mult.commute)
      have pos: "c + q * (Suc i - 1) + l = p" by (simp add: p dil)
      have "g ! p = fst st3 ! p + spec_mixture_entry ext inp beta scales (Suc i) l"
        using hi[of "Suc i" l] i l pn pos by simp
      also have "fst st3 ! p = 0"
        using d by (simp add: g3' p nth_append cl)
      also have "spec_mixture_entry ext inp beta scales (Suc i) l = X ! d"
        using nth_concat_fixed[of i "[1..<dJ inp]" l q "spec_mixture_entry ext inp beta scales"] i l
        by (simp add: X_def spec_mixture_segment_def dil q_def)
      also have "X ! d = (S @ X) ! p"
        by (simp only: p cl nth_append_length_plus)
      finally show ?thesis by simp
    qed
  qed
  with fw bw grad show ?thesis
    by (simp add: S_def A_def B_def I_def X_def)
qed

section \<open>The call returns\<close>

text \<open>On inputs of consistent shapes no read is out of range and no write leaves the
  gradient vector: every loop of the call runs to its end, so the call returns whenever the
  forward and the backward routine do.\<close>

lemma for_each_total:
  assumes step: "\<And>x s. x \<in> set xs \<Longrightarrow> I s \<Longrightarrow> \<exists>s'. body x s = Some s' \<and> I s'"
    and init: "I s"
  shows "\<exists>s'. for_each xs body s = Some s' \<and> I s'"
  using assms
proof (induction xs arbitrary: s)
  case Nil
  then show ?case by simp
next
  case (Cons x xs)
  from Cons.prems(1)[of x s] Cons.prems(2) obtain s1 where s1: "body x s = Some s1" "I s1"
    by auto
  have "\<exists>s'. for_each xs body s1 = Some s' \<and> I s'"
    by (rule Cons.IH[OF _ s1(2)]) (rule Cons.prems(1), simp_all)
  with s1 show ?case by simp
qed

lemma for_each_write_total:
  assumes step: "\<And>x st. x \<in> set xs \<Longrightarrow> snd st + cnt x \<le> length (fst st) \<Longrightarrow>
      \<exists>st'. body x st = Some st' \<and> length (fst st') = length (fst st) \<and> snd st' = snd st + cnt x"
    and room: "snd st + sum_list (map cnt xs) \<le> length (fst st)"
  shows "\<exists>st'. for_each xs body st = Some st' \<and> length (fst st') = length (fst st) \<and>
      snd st' = snd st + sum_list (map cnt xs)"
  using assms
proof (induction xs arbitrary: st)
  case Nil
  then show ?case by simp
next
  case (Cons x xs)
  have "snd st + cnt x \<le> length (fst st)" using Cons.prems(2) by simp
  from Cons.prems(1)[OF _ this] obtain s1 where s1: "body x st = Some s1"
    "length (fst s1) = length (fst st)" "snd s1 = snd st + cnt x"
    by auto
  have "\<exists>st'. for_each xs body s1 = Some st' \<and> length (fst st') = length (fst s1) \<and>
      snd st' = snd s1 + sum_list (map cnt xs)"
  proof (rule Cons.IH)
    show "snd s1 + sum_list (map cnt xs) \<le> length (fst s1)"
      using Cons.prems(2) s1 by simp
    show "\<And>y st. y \<in> set xs \<Longrightarrow> snd st + cnt y \<le> length (fst st) \<Longrightarrow>
      \<exists>st'. body y st = Some st' \<and> length (fst st') = length (fst st) \<and> snd st' = snd st + cnt y"
      by (rule Cons.prems(1)) simp_all
  qed
  with s1 show ?case by (auto simp: add.assoc)
qed

lemma shapes_ok_D:
  assumes "shapes_ok inp"
  shows "masks_wf inp" and "0 < dP inp" and "0 < dJ inp" and "0 < dN inp"
    and "dJ inp = 1 \<or> 0 < coefs_nrow inp"
    and "dRo inp = dR inp" and "sum_list (numberOfStates inp) = dM inp"
    and "\<And>jj. jj < dJ inp \<Longrightarrow> 0 < numberOfStates inp ! jj"
    and "\<And>r. r < dR inp \<Longrightarrow> 1 \<le> nSymbols inp r \<and> nSymbols inp r \<le> dP inp"
    and "\<And>k t r. k < dK inp \<Longrightarrow> t < dN inp \<Longrightarrow> r < dR inp \<Longrightarrow>
      0 \<le> obsArray inp k t r \<and> nat (obsArray inp k t r) < dP inp"
    and "\<And>r v i. r < dR inp \<Longrightarrow> v < dP inp - 1 \<Longrightarrow> i < dM inp \<Longrightarrow>
      emissNZ inp i v r \<noteq> 0 \<Longrightarrow> v < nSymbols inp r"
proof -
  show wf: "masks_wf inp" and "0 < dP inp" and "0 < dJ inp" and "0 < dN inp"
    and "dJ inp = 1 \<or> 0 < coefs_nrow inp"
    using assms by (simp_all add: shapes_ok_def)
  show "dRo inp = dR inp" and "sum_list (numberOfStates inp) = dM inp"
    using wf by (simp_all add: masks_wf_def)
  show "0 < numberOfStates inp ! jj" if "jj < dJ inp" for jj
    using assms that by (simp add: shapes_ok_def list_all_iff dJ_def)
  show "1 \<le> nSymbols inp r \<and> nSymbols inp r \<le> dP inp" if "r < dR inp" for r
    using assms that by (simp add: shapes_ok_def list_all_iff)
  show "0 \<le> obsArray inp k t r \<and> nat (obsArray inp k t r) < dP inp"
    if "k < dK inp" "t < dN inp" "r < dR inp" for k t r
  proof -
    have "0 \<le> obsArray inp k t r \<and> obsArray inp k t r < int (dP inp)"
      using assms that by (simp add: shapes_ok_def list_all_iff)
    then show ?thesis by linarith
  qed
  show "v < nSymbols inp r"
    if "r < dR inp" "v < dP inp - 1" "i < dM inp" "emissNZ inp i v r \<noteq> 0" for r v i
  proof -
    have "v < nSymbols inp r \<or> emissNZ inp i v r = 0"
      using assms that(1,2,3) by (simp add: shapes_ok_def list_all_iff Ball_def) blast
    with that(4) show ?thesis by simp
  qed
qed

lemma emission_prod_total:
  fixes inp :: "'a::{one,times} input"
  assumes ok: "shapes_ok inp" and "i < dM inp" "k < dK inp" "t < dN inp"
  shows "\<exists>v. emission_prod inp keep i k t = Some v"
proof -
  have "\<exists>s'. for_each [0..<dRo inp]
       (\<lambda>r tmp. if keep r
          then do { v \<leftarrow> obs_at inp k t r; e \<leftarrow> emission_at inp i v r; Some (tmp * e) }
          else Some tmp) 1 = Some s' \<and> True"
  proof (rule for_each_total)
    fix r and s :: 'a
    assume "r \<in> set [0..<dRo inp]"
    then have r: "r < dR inp" "r < dRo inp" by (simp_all add: shapes_ok_D(6)[OF ok])
    have o: "obs_at inp k t r = Some (obsArray inp k t r)"
      using assms(3,4) r by (simp add: obs_at_def at3_def dK_def dN_def dRo_def)
    have e: "emission_at inp i (obsArray inp k t r) r
        = Some (emissionArray inp i (nat (obsArray inp k t r)) r)"
      using shapes_ok_D(10)[OF ok assms(3,4) r(1)] assms(2) r
      by (simp add: emission_at_def at3_def dM_def dP_def dR_def)
    show "\<exists>s'. (if keep r
          then do { v \<leftarrow> obs_at inp k t r; e \<leftarrow> emission_at inp i v r; Some (s * e) }
          else Some s) = Some s' \<and> True"
      by (simp add: o e)
  qed simp
  then show ?thesis by (simp add: emission_prod_def)
qed

lemma at3_in: "i < fst d \<Longrightarrow> j < fst (snd d) \<Longrightarrow> s < snd (snd d) \<Longrightarrow> at3 d c i j s = Some (c i j s)"
  by (simp add: at3_def)

lemma at2_in: "i < fst d \<Longrightarrow> j < snd d \<Longrightarrow> at2 d m i j = Some (m i j)"
  by (simp add: at2_def)

lemma add_at_total: "j < length v \<Longrightarrow> \<exists>v'. add_at v j x = Some v' \<and> length v' = length v"
  by (simp add: add_at_def)

lemma rows_total:
  assumes "\<forall>j\<in>set ind. j < length v"
  shows "\<exists>vs. rows v ind = Some vs \<and> length vs = length ind"
  using assms by (simp add: rows_def list_all_iff)

lemma write_subvec_total:
  assumes "vs \<noteq> []" and "c + length vs \<le> length g"
  shows "\<exists>g'. write_subvec g c vs = Some g' \<and> length g' = length g"
  using assms by (simp add: write_subvec_def)

lemma length_mat_vec: "length (mat_vec n G v) = n"
  by (simp add: mat_vec_def)

lemma block_state_in:
  assumes ok: "shapes_ok inp" and "jj < dJ inp" "i < numberOfStates inp ! jj"
  shows "block_start (numberOfStates inp) jj + i < dM inp"
    and "cumsumstate (numberOfStates inp) jj \<le> dM inp"
  using block_state_bound[of jj "numberOfStates inp" i] cumsumstate_le[of jj "numberOfStates inp"]
    assms(2,3) shapes_ok_D(7)[OF ok]
  by (simp_all add: dJ_def)

lemma gradArow_loop_total:
  fixes inp :: "'a::{zero,one,plus,times,inverse} input"
  assumes ok: "shapes_ok inp" and jj: "jj < dJ inp" and i: "i < numberOfStates inp ! jj"
  shows "\<exists>row. gradArow_loop inp alpha beta scales jj i = Some row \<and>
     length row = numberOfStates inp ! jj"
proof -
  define n where "n = numberOfStates inp ! jj"
  define s0 where "s0 = block_start (numberOfStates inp) jj"
  define body where "body = (\<lambda>k t j (gradArow :: 'a list). do {
            tmp \<leftarrow> emission_prod inp (\<lambda>r. True) (s0 + j) k (t + 1);
            a \<leftarrow> at3 (aDims inp) alpha (s0 + i) t k;
            b \<leftarrow> at3 (aDims inp) beta (s0 + j) (t + 1) k;
            s \<leftarrow> at2 (sDims inp) scales (t + 1) k;
            add_at gradArow j (a * tmp * b / s) })"
  have si: "s0 + i < dM inp" using block_state_in(1)[OF ok jj i] by (simp add: s0_def)
  have inner: "\<exists>b. body k t j a = Some b \<and> length b = n"
    if "k < dK inp" "t < dN inp - 1" "j < n" "length a = n" for k t j a
  proof -
    have sj: "s0 + j < dM inp"
      using block_state_in(1)[OF ok jj, of j] that(3) by (simp add: s0_def n_def)
    have t1: "Suc t < dN inp" "t < dN inp" using that(2) by simp_all
    from emission_prod_total[OF ok sj that(1) t1(1)] obtain tmp where
      tmp: "emission_prod inp (\<lambda>r. True) (s0 + j) k (Suc t) = Some tmp" by blast
    have r: "at3 (aDims inp) alpha (s0 + i) t k = Some (alpha (s0 + i) t k)"
      "at3 (aDims inp) beta (s0 + j) (Suc t) k = Some (beta (s0 + j) (Suc t) k)"
      "at2 (sDims inp) scales (Suc t) k = Some (scales (Suc t) k)"
      using si sj t1 that(1) by (simp_all add: at3_in at2_in aDims_def sDims_def)
    from add_at_total[of j a] that(3,4) show ?thesis
      by (simp add: body_def tmp r)
  qed
  have lj: "\<exists>b. for_each [0..<n] (body k t) a = Some b \<and> length b = n"
    if "k < dK inp" "t < dN inp - 1" "length a = n" for k t a
    by (rule for_each_total[where I = "\<lambda>row. length row = n"])
       (use inner[OF that(1,2)] that(3) in simp_all)
  have lt: "\<exists>b. for_each [0..<dN inp - 1] (\<lambda>t. for_each [0..<n] (body k t)) a = Some b
      \<and> length b = n"
    if "k < dK inp" "length a = n" for k a
    by (rule for_each_total[where I = "\<lambda>row. length row = n"])
       (use lj[OF that(1)] that(2) in simp_all)
  have "\<exists>b. for_each [0..<dK inp] (\<lambda>k. for_each [0..<dN inp - 1]
      (\<lambda>t. for_each [0..<n] (body k t))) (replicate n 0) = Some b \<and> length b = n"
    by (rule for_each_total[where I = "\<lambda>row. length row = n"]) (use lt in simp_all)
  then show ?thesis
    unfolding gradArow_loop_def Let_def n_def s0_def body_def .
qed

lemma transition_row_total:
  fixes inp :: "'a::{zero,one,plus,minus,times,inverse} input"
  assumes ok: "shapes_ok inp" and jj: "jj < dJ inp" and i: "i < numberOfStates inp ! jj"
    and room: "snd st + length (find_nz (numberOfStates inp ! jj)
      (\<lambda>j. transNZ inp (block_start (numberOfStates inp) jj + i)
                       (block_start (numberOfStates inp) jj + j))) \<le> length (fst st)"
  shows "\<exists>st'. transition_row inp alpha beta scales jj i st = Some st' \<and>
     length (fst st') = length (fst st) \<and>
     snd st' = snd st + length (find_nz (numberOfStates inp ! jj)
      (\<lambda>j. transNZ inp (block_start (numberOfStates inp) jj + i)
                       (block_start (numberOfStates inp) jj + j)))"
proof -
  define n where "n = numberOfStates inp ! jj"
  define s0 where "s0 = block_start (numberOfStates inp) jj"
  define ind where "ind = find_nz n (\<lambda>j. transNZ inp (s0 + i) (s0 + j))"
  have cum: "cumsumstate (numberOfStates inp) jj \<le> dM inp"
    by (rule block_state_in(2)[OF ok jj i])
  show ?thesis
  proof (cases "ind = []")
    case True
    then show ?thesis
      using cum by (simp add: transition_row_def Let_def ind_def n_def s0_def)
  next
    case False
    from gradArow_loop_total[OF ok jj i, of alpha beta scales] obtain row where
      row: "gradArow_loop inp alpha beta scales jj i = Some row" "length row = n"
      by (auto simp: n_def)
    have "\<forall>j\<in>set ind. j < length (mat_vec n
        (simplex_jac (\<lambda>j. transitionMatrix inp (s0 + i) (s0 + j))) row)"
      by (simp add: length_mat_vec ind_def find_nz_def)
    from rows_total[OF this] obtain vs where
      vs: "rows (mat_vec n (simplex_jac (\<lambda>j. transitionMatrix inp (s0 + i) (s0 + j))) row) ind
        = Some vs" "length vs = length ind" by blast
    have "vs \<noteq> []" using False vs(2) by auto
    moreover have "snd st + length vs \<le> length (fst st)"
      using room by (simp add: vs(2) ind_def n_def s0_def)
    ultimately obtain g where
      g: "write_subvec (fst st) (snd st) vs = Some g" "length g = length (fst st)"
      using write_subvec_total by blast
    show ?thesis
      using False cum row(1) vs(1) g
      by (simp add: transition_row_def Let_def ind_def[symmetric] n_def[symmetric]
          s0_def[symmetric])
  qed
qed

lemma gradBrow_loop_total:
  fixes inp :: "'a::{zero,one,plus,times,inverse} input"
  assumes ok: "shapes_ok inp" and r: "r < dR inp" and i: "i < dM inp"
  shows "\<exists>row. gradBrow_loop ext inp alpha beta scales r i = Some row \<and>
     length row = nSymbols inp r"
proof -
  define n where "n = nSymbols inp r"
  have N: "0 < dN inp" by (rule shapes_ok_D(4)[OF ok])
  have ro: "r < dRo inp" using r by (simp add: shapes_ok_D(6)[OF ok])
  have first: "\<exists>b. gradBrow_first ext inp beta scales r i j k a = Some b \<and> length b = n"
    if "j < n" "k < dK inp" "length a = n" for j k a
  proof -
    have o: "obs_at inp k 0 r = Some (obsArray inp k 0 r)"
      using that(2) N ro by (simp add: obs_at_def at3_def dK_def dN_def dRo_def)
    from emission_prod_total[OF ok i that(2) N] obtain tmp where
      tmp: "emission_prod inp (\<lambda>r2. r2 \<noteq> r) i k 0 = Some tmp" by blast
    have rd: "at2 (dM inp, dK inp) (initk ext inp) i k = Some (initk ext inp i k)"
      "at3 (aDims inp) beta i 0 k = Some (beta i 0 k)"
      "at2 (sDims inp) scales 0 k = Some (scales 0 k)"
      using i that(2) N by (simp_all add: at3_in at2_in aDims_def sDims_def)
    from add_at_total[of j a] that(1,3) show ?thesis
      by (simp add: gradBrow_first_def o tmp rd)
  qed
  have later: "\<exists>b. gradBrow_later inp alpha beta scales r i j k t a = Some b \<and> length b = n"
    if "j < n" "k < dK inp" "t < dN inp - 1" "length a = n" for j k t a
  proof -
    have t1: "Suc t < dN inp" using that(3) by simp
    have o: "obs_at inp k (Suc t) r = Some (obsArray inp k (Suc t) r)"
      using that(2) t1 ro by (simp add: obs_at_def at3_def dK_def dN_def dRo_def)
    from emission_prod_total[OF ok i that(2) t1] obtain tmp where
      tmp: "emission_prod inp (\<lambda>r2. r2 \<noteq> r) i k (Suc t) = Some tmp" by blast
    have rd: "at3 (aDims inp) beta i (Suc t) k = Some (beta i (Suc t) k)"
      "at2 (sDims inp) scales (Suc t) k = Some (scales (Suc t) k)"
      using i that(2) t1 by (simp_all add: at3_in at2_in aDims_def sDims_def)
    from add_at_total[of j a] that(1,4) show ?thesis
      by (simp add: gradBrow_later_def o tmp rd)
  qed
  define body where "body = (\<lambda>j k (gradBrow :: 'a list). do {
         g \<leftarrow> gradBrow_first ext inp beta scales r i j k gradBrow;
         for_each [0..<dN inp - 1] (gradBrow_later inp alpha beta scales r i j k) g })"
  have lk: "\<exists>b. body j k a = Some b \<and> length b = n"
    if "j < n" "k < dK inp" "length a = n" for j k a
  proof -
    from first[OF that] obtain g where
      g: "gradBrow_first ext inp beta scales r i j k a = Some g" "length g = n" by blast
    have "\<exists>b. for_each [0..<dN inp - 1] (gradBrow_later inp alpha beta scales r i j k) g
        = Some b \<and> length b = n"
      by (rule for_each_total[where I = "\<lambda>row. length row = n"])
         (use later[OF that(1,2)] g(2) in simp_all)
    then show ?thesis by (simp add: body_def g(1))
  qed
  have lj: "\<exists>b. for_each [0..<dK inp] (body j) a = Some b \<and> length b = n"
    if "j < n" "length a = n" for j a
    by (rule for_each_total[where I = "\<lambda>row. length row = n"])
       (use lk[OF that(1)] that(2) in simp_all)
  have "\<exists>b. for_each [0..<n] (\<lambda>j. for_each [0..<dK inp] (body j)) (replicate n 0) = Some b
      \<and> length b = n"
    by (rule for_each_total[where I = "\<lambda>row. length row = n"]) (use lj in simp_all)
  then show ?thesis
    unfolding gradBrow_loop_def n_def body_def .
qed

lemma emission_row_total:
  fixes inp :: "'a::{zero,one,plus,minus,times,inverse} input"
  assumes ok: "shapes_ok inp" and r: "r < dR inp" and i: "i < dM inp"
    and room: "snd st + length (find_nz (dP inp - 1) (\<lambda>j. emissNZ inp i j r))
      \<le> length (fst st)"
  shows "\<exists>st'. emission_row ext inp alpha beta scales r i st = Some st' \<and>
     length (fst st') = length (fst st) \<and>
     snd st' = snd st + length (find_nz (dP inp - 1) (\<lambda>j. emissNZ inp i j r))"
proof -
  define n where "n = nSymbols inp r"
  define ind where "ind = find_nz (dP inp - 1) (\<lambda>j. emissNZ inp i j r)"
  have sym: "1 \<le> nSymbols inp r \<and> nSymbols inp r \<le> dP inp"
    by (rule shapes_ok_D(9)[OF ok r])
  show ?thesis
  proof (cases "ind = []")
    case True
    then show ?thesis
      unfolding emission_row_def Let_def ind_def[symmetric]
      using r by simp
  next
    case False
    from gradBrow_loop_total[OF ok r i, of ext alpha beta scales] obtain row where
      row: "gradBrow_loop ext inp alpha beta scales r i = Some row" "length row = n"
      by (auto simp: n_def)
    have "\<forall>j\<in>set ind. j < length (mat_vec n (simplex_jac (\<lambda>j. emissionArray inp i j r)) row)"
      using shapes_ok_D(11)[OF ok r _ i]
      by (auto simp: length_mat_vec ind_def find_nz_def n_def)
    from rows_total[OF this] obtain vs where
      vs: "rows (mat_vec n (simplex_jac (\<lambda>j. emissionArray inp i j r)) row) ind = Some vs"
        "length vs = length ind" by blast
    have "vs \<noteq> []" using False vs(2) by auto
    moreover have "snd st + length vs \<le> length (fst st)"
      using room by (simp add: vs(2) ind_def)
    ultimately obtain g where
      g: "write_subvec (fst st) (snd st) vs = Some g" "length g = length (fst st)"
      using write_subvec_total by blast
    show ?thesis
      unfolding emission_row_def Let_def ind_def[symmetric] n_def[symmetric]
      using False r sym row(1) vs(1) g by (simp add: n_def)
  qed
qed

lemma gradIrow_loop_total:
  fixes inp :: "'a::{zero,one,plus,times,inverse} input"
  assumes ok: "shapes_ok inp" and i: "i < dJ inp"
  shows "\<exists>row. gradIrow_loop ext inp beta scales i = Some row \<and>
     length row = numberOfStates inp ! i"
proof -
  define n where "n = numberOfStates inp ! i"
  define s0 where "s0 = block_start (numberOfStates inp) i"
  define body where "body = (\<lambda>j k (gradIrow :: 'a list). do {
          tmp \<leftarrow> emission_prod inp (\<lambda>r. True) (s0 + j) k 0;
          b \<leftarrow> at3 (aDims inp) beta (s0 + j) 0 k;
          s \<leftarrow> at2 (sDims inp) scales 0 k;
          w \<leftarrow> at2 (dJ inp, dK inp) (lweights ext inp) i k;
          add_at gradIrow j (tmp * b / s * w) })"
  have N: "0 < dN inp" by (rule shapes_ok_D(4)[OF ok])
  have inner: "\<exists>b. body j k a = Some b \<and> length b = n"
    if "j < n" "k < dK inp" "length a = n" for j k a
  proof -
    have sj: "s0 + j < dM inp"
      using block_state_in(1)[OF ok i, of j] that(1) by (simp add: s0_def n_def)
    from emission_prod_total[OF ok sj that(2) N] obtain tmp where
      tmp: "emission_prod inp (\<lambda>r. True) (s0 + j) k 0 = Some tmp" by blast
    have rd: "at3 (aDims inp) beta (s0 + j) 0 k = Some (beta (s0 + j) 0 k)"
      "at2 (sDims inp) scales 0 k = Some (scales 0 k)"
      "at2 (dJ inp, dK inp) (lweights ext inp) i k = Some (lweights ext inp i k)"
      using sj that(2) N i by (simp_all add: at3_in at2_in aDims_def sDims_def)
    from add_at_total[of j a] that(1,3) show ?thesis
      by (simp add: body_def tmp rd)
  qed
  have lj: "\<exists>b. for_each [0..<dK inp] (body j) a = Some b \<and> length b = n"
    if "j < n" "length a = n" for j a
    by (rule for_each_total[where I = "\<lambda>row. length row = n"])
       (use inner[OF that(1)] that(2) in simp_all)
  have "\<exists>b. for_each [0..<n] (\<lambda>j. for_each [0..<dK inp] (body j)) (replicate n 0) = Some b
      \<and> length b = n"
    by (rule for_each_total[where I = "\<lambda>row. length row = n"]) (use lj in simp_all)
  then show ?thesis
    unfolding gradIrow_loop_def Let_def n_def s0_def body_def .
qed

lemma initial_block_total:
  fixes inp :: "'a::{zero,one,plus,minus,times,inverse} input"
  assumes ok: "shapes_ok inp" and i: "i < dJ inp"
    and room: "snd st + length (find_nz (numberOfStates inp ! i)
      (\<lambda>j. initNZ inp (block_start (numberOfStates inp) i + j))) \<le> length (fst st)"
  shows "\<exists>st'. initial_block ext inp beta scales i st = Some st' \<and>
     length (fst st') = length (fst st) \<and>
     snd st' = snd st + length (find_nz (numberOfStates inp ! i)
      (\<lambda>j. initNZ inp (block_start (numberOfStates inp) i + j)))"
proof -
  define n where "n = numberOfStates inp ! i"
  define s0 where "s0 = block_start (numberOfStates inp) i"
  define ind where "ind = find_nz n (\<lambda>j. initNZ inp (s0 + j))"
  have pos: "0 < n" using shapes_ok_D(8)[OF ok i] by (simp add: n_def)
  have cum: "cumsumstate (numberOfStates inp) i \<le> dM inp"
    using block_state_in(2)[OF ok i, of 0] pos by (simp add: n_def)
  show ?thesis
  proof (cases "ind = []")
    case True
    then show ?thesis
      using cum pos by (simp add: initial_block_def Let_def ind_def n_def s0_def)
  next
    case False
    from gradIrow_loop_total[OF ok i, of ext beta scales] obtain row where
      row: "gradIrow_loop ext inp beta scales i = Some row" "length row = n"
      by (auto simp: n_def)
    have "\<forall>j\<in>set ind. j < length (mat_vec n (simplex_jac (\<lambda>j. initialProbs inp (s0 + j))) row)"
      by (simp add: length_mat_vec ind_def find_nz_def)
    from rows_total[OF this] obtain vs where
      vs: "rows (mat_vec n (simplex_jac (\<lambda>j. initialProbs inp (s0 + j))) row) ind = Some vs"
        "length vs = length ind" by blast
    have "vs \<noteq> []" using False vs(2) by auto
    moreover have "snd st + length vs \<le> length (fst st)"
      using room by (simp add: vs(2) ind_def n_def s0_def)
    ultimately obtain g where
      g: "write_subvec (fst st) (snd st) vs = Some g" "length g = length (fst st)"
      using write_subvec_total by blast
    show ?thesis
      using False cum pos row(1) vs(1) g
      by (simp add: initial_block_def Let_def ind_def[symmetric] n_def[symmetric]
          s0_def[symmetric])
  qed
qed

lemma transition_pass_total:
  fixes inp :: "'a::{zero,one,plus,minus,times,inverse} input"
  assumes ok: "shapes_ok inp" and fit: "counts_fit inp"
    and room: "snd st + free_count_A inp \<le> length (fst st)"
  shows "\<exists>st'. transition_pass inp alpha beta scales st = Some st' \<and>
     length (fst st') = length (fst st) \<and> snd st' = snd st + free_count_A inp"
proof (cases "0 < accu_ANZ inp")
  case False
  with counts_fit_accu(1)[OF shapes_ok_D(1)[OF ok] fit] free_count_nnz(1)[OF shapes_ok_D(1)[OF ok]]
  have "free_count_A inp = 0" by simp
  with False show ?thesis by (simp add: transition_pass_def)
next
  case True
  define cnt where "cnt = (\<lambda>jj i. length (find_nz (numberOfStates inp ! jj)
      (\<lambda>j. transNZ inp (block_start (numberOfStates inp) jj + i)
                       (block_start (numberOfStates inp) jj + j))))"
  define tot where "tot = (\<lambda>jj. sum_list (map (cnt jj) [0..<numberOfStates inp ! jj]))"
  have fc: "free_count_A inp = sum_list (map tot [0..<dJ inp])"
    by (simp add: free_count_A_def Let_def cnt_def tot_def)
  have "\<exists>st'. for_each [0..<dJ inp] (\<lambda>jj. for_each [0..<numberOfStates inp ! jj]
        (transition_row inp alpha beta scales jj)) st = Some st' \<and>
      length (fst st') = length (fst st) \<and> snd st' = snd st + sum_list (map tot [0..<dJ inp])"
  proof (rule for_each_write_total[where cnt = tot])
    show "snd st + sum_list (map tot [0..<dJ inp]) \<le> length (fst st)"
      using room fc by simp
  next
    fix jj and s :: "'a list \<times> nat"
    assume jj: "jj \<in> set [0..<dJ inp]" and r: "snd s + tot jj \<le> length (fst s)"
    have "\<exists>st'. for_each [0..<numberOfStates inp ! jj] (transition_row inp alpha beta scales jj) s
        = Some st' \<and> length (fst st') = length (fst s) \<and>
        snd st' = snd s + sum_list (map (cnt jj) [0..<numberOfStates inp ! jj])"
    proof (rule for_each_write_total[where cnt = "cnt jj"])
      show "snd s + sum_list (map (cnt jj) [0..<numberOfStates inp ! jj]) \<le> length (fst s)"
        using r by (simp add: tot_def)
    next
      fix i and s2 :: "'a list \<times> nat"
      assume i: "i \<in> set [0..<numberOfStates inp ! jj]" and "snd s2 + cnt jj i \<le> length (fst s2)"
      then show "\<exists>st'. transition_row inp alpha beta scales jj i s2 = Some st' \<and>
          length (fst st') = length (fst s2) \<and> snd st' = snd s2 + cnt jj i"
        unfolding cnt_def using jj by (intro transition_row_total[OF ok]) simp_all
    qed
    then show "\<exists>st'. for_each [0..<numberOfStates inp ! jj]
        (transition_row inp alpha beta scales jj) s = Some st' \<and>
        length (fst st') = length (fst s) \<and> snd st' = snd s + tot jj"
      by (simp add: tot_def)
  qed
  with True fc show ?thesis by (simp add: transition_pass_def)
qed

lemma emission_pass_total:
  fixes inp :: "'a::{zero,one,plus,minus,times,inverse} input"
  assumes ok: "shapes_ok inp" and fit: "counts_fit inp"
    and room: "snd st + free_count_B inp \<le> length (fst st)"
  shows "\<exists>st'. emission_pass ext inp alpha beta scales st = Some st' \<and>
     length (fst st') = length (fst st) \<and> snd st' = snd st + free_count_B inp"
proof (cases "0 < accu_BNZ inp")
  case False
  with counts_fit_accu(2)[OF shapes_ok_D(1)[OF ok] fit] free_count_nnz(2)[OF shapes_ok_D(1)[OF ok]]
  have "free_count_B inp = 0" by simp
  with False show ?thesis by (simp add: emission_pass_def)
next
  case True
  define cnt where "cnt = (\<lambda>r i. length (find_nz (dP inp - 1) (\<lambda>j. emissNZ inp i j r)))"
  define tot where "tot = (\<lambda>r. sum_list (map (cnt r) [0..<dM inp]))"
  have fc: "free_count_B inp = sum_list (map tot [0..<dRo inp])"
    by (simp add: free_count_B_def cnt_def tot_def)
  have "\<exists>st'. for_each [0..<dRo inp] (\<lambda>r. for_each [0..<dM inp]
        (emission_row ext inp alpha beta scales r)) st = Some st' \<and>
      length (fst st') = length (fst st) \<and> snd st' = snd st + sum_list (map tot [0..<dRo inp])"
  proof (rule for_each_write_total[where cnt = tot])
    show "snd st + sum_list (map tot [0..<dRo inp]) \<le> length (fst st)"
      using room fc by simp
  next
    fix r and s :: "'a list \<times> nat"
    assume "r \<in> set [0..<dRo inp]" and rm: "snd s + tot r \<le> length (fst s)"
    then have r: "r < dR inp" by (simp add: shapes_ok_D(6)[OF ok])
    have "\<exists>st'. for_each [0..<dM inp] (emission_row ext inp alpha beta scales r) s
        = Some st' \<and> length (fst st') = length (fst s) \<and>
        snd st' = snd s + sum_list (map (cnt r) [0..<dM inp])"
    proof (rule for_each_write_total[where cnt = "cnt r"])
      show "snd s + sum_list (map (cnt r) [0..<dM inp]) \<le> length (fst s)"
        using rm by (simp add: tot_def)
    next
      fix i and s2 :: "'a list \<times> nat"
      assume i: "i \<in> set [0..<dM inp]" and "snd s2 + cnt r i \<le> length (fst s2)"
      then show "\<exists>st'. emission_row ext inp alpha beta scales r i s2 = Some st' \<and>
          length (fst st') = length (fst s2) \<and> snd st' = snd s2 + cnt r i"
        unfolding cnt_def using r by (intro emission_row_total[OF ok]) simp_all
    qed
    then show "\<exists>st'. for_each [0..<dM inp] (emission_row ext inp alpha beta scales r) s
        = Some st' \<and> length (fst st') = length (fst s) \<and> snd st' = snd s + tot r"
      by (simp add: tot_def)
  qed
  with True fc show ?thesis by (simp add: emission_pass_def)
qed

lemma initial_pass_total:
  fixes inp :: "'a::{zero,one,plus,minus,times,inverse} input"
  assumes ok: "shapes_ok inp" and fit: "counts_fit inp"
    and room: "snd st + free_count_I inp \<le> length (fst st)"
  shows "\<exists>st'. initial_pass ext inp beta scales st = Some st' \<and>
     length (fst st') = length (fst st) \<and> snd st' = snd st + free_count_I inp"
proof (cases "0 < accu_INZ inp")
  case False
  with counts_fit_accu(3)[OF shapes_ok_D(1)[OF ok] fit] free_count_nnz(3)[OF shapes_ok_D(1)[OF ok]]
  have "free_count_I inp = 0" by simp
  with False show ?thesis by (simp add: initial_pass_def)
next
  case True
  define cnt where "cnt = (\<lambda>i. length (find_nz (numberOfStates inp ! i)
      (\<lambda>j. initNZ inp (block_start (numberOfStates inp) i + j))))"
  have fc: "free_count_I inp = sum_list (map cnt [0..<dJ inp])"
    by (simp add: free_count_I_def Let_def cnt_def)
  have "\<exists>st'. for_each [0..<dJ inp] (initial_block ext inp beta scales) st = Some st' \<and>
      length (fst st') = length (fst st) \<and> snd st' = snd st + sum_list (map cnt [0..<dJ inp])"
  proof (rule for_each_write_total[where cnt = cnt])
    show "snd st + sum_list (map cnt [0..<dJ inp]) \<le> length (fst st)"
      using room fc by simp
  next
    fix i and s2 :: "'a list \<times> nat"
    assume i: "i \<in> set [0..<dJ inp]" and "snd s2 + cnt i \<le> length (fst s2)"
    then show "\<exists>st'. initial_block ext inp beta scales i s2 = Some st' \<and>
        length (fst st') = length (fst s2) \<and> snd st' = snd s2 + cnt i"
      unfolding cnt_def by (intro initial_block_total[OF ok]) simp_all
  qed
  with True fc show ?thesis by (simp add: initial_pass_def)
qed

lemma add_subvec_total:
  "1 \<le> q \<Longrightarrow> a + q \<le> length g \<Longrightarrow> \<exists>g'. add_subvec g a q v = Some g' \<and> length g' = length g"
  by (simp add: add_subvec_def)

lemma sub_subvec_total:
  "1 \<le> q \<Longrightarrow> a + q \<le> length g \<Longrightarrow> \<exists>g'. sub_subvec g a q v = Some g' \<and> length g' = length g"
  by (simp add: sub_subvec_def)

lemma mixture_step_total:
  fixes inp :: "'a::{zero,one,plus,minus,times,inverse} input"
  assumes ok: "shapes_ok inp" and jj: "1 \<le> jj" "jj < dJ inp" and k: "k < dK inp"
    and j: "j < dM inp" and room: "c + coefs_nrow inp * (dJ inp - 1) \<le> length g"
  shows "\<exists>g'. mixture_step ext inp beta scales c jj k j g = Some g' \<and> length g' = length g"
proof -
  define q where "q = coefs_nrow inp"
  have n: "0 < dN inp" by (rule shapes_ok_D(4)[OF ok])
  obtain tmp where tmp: "emission_prod inp (\<lambda>r. True) j k 0 = Some tmp"
    using emission_prod_total[OF ok j k n] by blast
  have b: "at3 (aDims inp) beta j 0 k = Some (beta j 0 k)"
    using j k n by (simp add: at3_in aDims_def)
  have s: "at2 (sDims inp) scales 0 k = Some (scales 0 k)"
    using k n by (simp add: at2_in sDims_def)
  have ik: "at2 (dM inp, dK inp) (initk ext inp) j k = Some (initk ext inp j k)"
    using j k by (simp add: at2_in)
  have w: "at2 (dJ inp, dK inp) (lweights ext inp) jj k = Some (lweights ext inp jj k)"
    using jj k by (simp add: at2_in)
  have q1: "1 \<le> q" using shapes_ok_D(5)[OF ok] jj by (simp add: q_def)
  have e: "q * (jj - 1) + q = q * jj" using jj(1) by (cases jj) simp_all
  have "jj \<le> dJ inp - 1" using jj(2) by simp
  then have le: "q * jj \<le> q * (dJ inp - 1)" by (rule mult_le_mono2)
  have "c + q * (jj - 1) + q = c + q * jj" using e by linarith
  moreover have "c + q * jj \<le> c + q * (dJ inp - 1)" using le by linarith
  moreover have "c + q * (dJ inp - 1) \<le> length g" using room by (simp only: q_def)
  ultimately have fit: "c + q * (jj - 1) + q \<le> length g" by linarith
  show ?thesis
    unfolding mixture_step_def Let_def q_def[symmetric]
    using add_subvec_total[OF q1 fit] sub_subvec_total[OF q1 fit]
    by (simp add: tmp b s ik w)
qed

lemma mixture_pass_total:
  fixes inp :: "'a::{zero,one,plus,minus,times,inverse} input"
  assumes ok: "shapes_ok inp"
    and room: "snd st + coefs_nrow inp * (dJ inp - 1) \<le> length (fst st)"
  shows "\<exists>g. mixture_pass ext inp beta scales st = Some g \<and> length g = length (fst st)"
  unfolding mixture_pass_def
proof (rule for_each_total[where I = "\<lambda>g. length g = length (fst st)"])
  show "length (fst st) = length (fst st)" ..
next
  fix jj and g :: "'a list"
  assume jj: "jj \<in> set [1..<dJ inp]" and g: "length g = length (fst st)"
  show "\<exists>s'. for_each [0..<dK inp] (\<lambda>k. for_each [0..<dM inp]
      (mixture_step ext inp beta scales (snd st) jj k)) g = Some s' \<and>
      length s' = length (fst st)"
  proof (rule for_each_total[where I = "\<lambda>g. length g = length (fst st)"])
    show "length g = length (fst st)" by (rule g)
  next
    fix k and g2 :: "'a list"
    assume k: "k \<in> set [0..<dK inp]" and g2: "length g2 = length (fst st)"
    show "\<exists>s'. for_each [0..<dM inp] (mixture_step ext inp beta scales (snd st) jj k) g2
        = Some s' \<and> length s' = length (fst st)"
    proof (rule for_each_total[where I = "\<lambda>g. length g = length (fst st)"])
      show "length g2 = length (fst st)" by (rule g2)
    next
      fix j and g3 :: "'a list"
      assume j: "j \<in> set [0..<dM inp]" and g3: "length g3 = length (fst st)"
      have "\<exists>g'. mixture_step ext inp beta scales (snd st) jj k j g3 = Some g' \<and>
          length g' = length g3"
        using jj k j room g3 by (intro mixture_step_total[OF ok]) simp_all
      then show "\<exists>s'. mixture_step ext inp beta scales (snd st) jj k j g3 = Some s' \<and>
          length s' = length (fst st)"
        by (simp add: g3)
    qed
  qed
qed

lemma objectivex_total:
  fixes inp :: "'a::{zero,one,plus,minus,uminus,times,inverse} input"
  assumes ok: "shapes_ok inp" and fit: "counts_fit inp"
    and fwd: "internalForwardx ext (eDims inp) (oDims inp) (transitionMatrix inp)
      (emissionArray inp) (initk ext inp) (obsArray inp) = Some (alpha, scales)"
    and bwd: "internalBackward ext (eDims inp) (oDims inp) (transitionMatrix inp)
      (emissionArray inp) (obsArray inp) scales = Some beta"
  shows "\<exists>obj grad. objectivex ext inp = Some (obj, grad)"
proof (cases "weights_finite ext inp")
  case False
  with shapes_ok_D(2,3)[OF ok] show ?thesis by (simp add: objectivex_def)
next
  case True
  define n where "n = free_count_A inp + free_count_B inp + free_count_I inp +
      coefs_nrow inp * (dJ inp - 1)"
  have ngs: "grad_size inp = n"
    unfolding n_def grad_size_fit[OF shapes_ok_D(1)[OF ok] fit shapes_ok_D(3)[OF ok]]
      free_count_nnz[OF shapes_ok_D(1)[OF ok]]
    by (simp only: mult.commute)
  define st0 :: "'a list \<times> nat" where "st0 = (replicate n 0, 0)"
  have "snd st0 + free_count_A inp \<le> length (fst st0)" by (simp add: st0_def n_def)
  from transition_pass_total[OF ok fit this, of alpha beta scales]
  obtain st1 where st1: "transition_pass inp alpha beta scales st0 = Some st1"
    "length (fst st1) = n" "snd st1 = free_count_A inp"
    by (auto simp: st0_def)
  have "snd st1 + free_count_B inp \<le> length (fst st1)" by (simp add: st1 n_def)
  from emission_pass_total[OF ok fit this, of ext alpha beta scales]
  obtain st2 where st2: "emission_pass ext inp alpha beta scales st1 = Some st2"
    "length (fst st2) = n" "snd st2 = free_count_A inp + free_count_B inp"
    by (auto simp: st1)
  have "snd st2 + free_count_I inp \<le> length (fst st2)" by (simp add: st2 n_def)
  from initial_pass_total[OF ok fit this, of ext beta scales]
  obtain st3 where st3: "initial_pass ext inp beta scales st2 = Some st3"
    "length (fst st3) = n" "snd st3 = free_count_A inp + free_count_B inp + free_count_I inp"
    by (auto simp: st2)
  have "snd st3 + coefs_nrow inp * (dJ inp - 1) \<le> length (fst st3)" by (simp add: st3 n_def)
  from mixture_pass_total[OF ok this, of ext beta scales]
  obtain g where g: "mixture_pass ext inp beta scales st3 = Some g" by blast
  have "objectivex ext inp = Some (- accu (dK inp) (ll ext inp scales), map uminus g)"
    using True shapes_ok_D(2,3,7)[OF ok] st1(1)
    unfolding objectivex_def st0_def
    by (simp add: ngs fwd bwd st2(1) st3(1) g)
  then show ?thesis by blast
qed

section \<open>Length and layout of the gradient\<close>

text \<open>
  Claim C1. Every call that returns, on either path, returns a gradient whose length is
  the size that line 26 computes: the sum of the three masks plus \<open>(J - 1) * q\<close>, taken
  in 32 bits. When the masks are indicators as in the data model (\<open>masks_wf\<close>) and the
  number of free parameters is within the 32-bit range (\<open>counts_fit\<close>), this length is
  the sum of the numbers of nonzero entries of the masks plus \<open>(J - 1) * q\<close>, and on the
  path of finite weights the gradient is the negated concatenation of the transition,
  emission, initial and mixture-coefficient segments, in this order, of lengths
  \<open>nnz_ANZ\<close>, \<open>nnz_BNZ\<close>, \<open>nnz_INZ\<close> and \<open>(J - 1) * q\<close>. With \<open>J = 1\<close> the last segment
  is empty. The segments are stated in exact arithmetic.
\<close>

theorem gradient_length_and_layout:
  fixes inp :: "real input"
  assumes run: "objectivex ext inp = Some (obj, grad)"
  shows "length grad = grad_size inp \<and>
         (masks_wf inp \<and> counts_fit inp \<longrightarrow>
            length grad = nnz_ANZ inp + nnz_BNZ inp + nnz_INZ inp + (dJ inp - 1) * coefs_nrow inp \<and>
            (weights_finite ext inp \<longrightarrow>
               (\<exists>alpha scales beta.
                  internalForwardx ext (eDims inp) (oDims inp) (transitionMatrix inp)
                    (emissionArray inp) (initk ext inp) (obsArray inp) = Some (alpha, scales) \<and>
                  internalBackward ext (eDims inp) (oDims inp) (transitionMatrix inp)
                    (emissionArray inp) (obsArray inp) scales = Some beta \<and>
                  grad = map uminus (spec_transition_segment inp alpha beta scales
                    @ spec_emission_segment ext inp alpha beta scales
                    @ spec_initial_segment ext inp beta scales
                    @ spec_mixture_segment ext inp beta scales) \<and>
                  length (spec_transition_segment inp alpha beta scales) = nnz_ANZ inp \<and>
                  length (spec_emission_segment ext inp alpha beta scales) = nnz_BNZ inp \<and>
                  length (spec_initial_segment ext inp beta scales) = nnz_INZ inp \<and>
                  length (spec_mixture_segment ext inp beta scales)
                    = (dJ inp - 1) * coefs_nrow inp)))"
proof (intro conjI impI)
  show len: "length grad = grad_size inp"
    by (rule objectivex_length[OF run])
  have J: "0 < dJ inp" using run by (auto simp: objectivex_def split: if_splits)
  {
    assume "masks_wf inp \<and> counts_fit inp"
    then have wf: "masks_wf inp" and fit: "counts_fit inp" by simp_all
    show "length grad = nnz_ANZ inp + nnz_BNZ inp + nnz_INZ inp + (dJ inp - 1) * coefs_nrow inp"
      unfolding len by (rule grad_size_fit[OF wf fit J])
  }
  {
    assume "masks_wf inp \<and> counts_fit inp" and fin: "weights_finite ext inp"
    then have wf: "masks_wf inp" and fit: "counts_fit inp" by simp_all
    from objectivex_layout[OF run fin wf fit] obtain alpha scales beta where
      fw: "internalForwardx ext (eDims inp) (oDims inp) (transitionMatrix inp)
          (emissionArray inp) (initk ext inp) (obsArray inp) = Some (alpha, scales)"
      and bw: "internalBackward ext (eDims inp) (oDims inp) (transitionMatrix inp)
          (emissionArray inp) (obsArray inp) scales = Some beta"
      and g: "grad = map uminus (spec_transition_segment inp alpha beta scales
          @ spec_emission_segment ext inp alpha beta scales
          @ spec_initial_segment ext inp beta scales
          @ spec_mixture_segment ext inp beta scales)"
      by blast
    have a: "length (spec_transition_segment inp alpha beta scales) = nnz_ANZ inp"
      by (rule of_nat_eq_iff[where 'a = int, THEN iffD1])
         (simp only: transition_count[OF wf])
    have b: "length (spec_emission_segment ext inp alpha beta scales) = nnz_BNZ inp"
      by (rule of_nat_eq_iff[where 'a = int, THEN iffD1])
         (simp only: emission_count[OF wf])
    have i: "length (spec_initial_segment ext inp beta scales) = nnz_INZ inp"
      by (rule of_nat_eq_iff[where 'a = int, THEN iffD1])
         (simp only: initial_count[OF wf])
    have x: "length (spec_mixture_segment ext inp beta scales) = (dJ inp - 1) * coefs_nrow inp"
      by (simp add: spec_mixture_segment_def length_concat_fixed)
    from fw bw g a b i x
    show "\<exists>alpha scales beta.
        internalForwardx ext (eDims inp) (oDims inp) (transitionMatrix inp)
          (emissionArray inp) (initk ext inp) (obsArray inp) = Some (alpha, scales) \<and>
        internalBackward ext (eDims inp) (oDims inp) (transitionMatrix inp)
          (emissionArray inp) (obsArray inp) scales = Some beta \<and>
        grad = map uminus (spec_transition_segment inp alpha beta scales
          @ spec_emission_segment ext inp alpha beta scales
          @ spec_initial_segment ext inp beta scales
          @ spec_mixture_segment ext inp beta scales) \<and>
        length (spec_transition_segment inp alpha beta scales) = nnz_ANZ inp \<and>
        length (spec_emission_segment ext inp alpha beta scales) = nnz_BNZ inp \<and>
        length (spec_initial_segment ext inp beta scales) = nnz_INZ inp \<and>
        length (spec_mixture_segment ext inp beta scales) = (dJ inp - 1) * coefs_nrow inp"
      by blast
  }
qed

text \<open>The routines of the example return the example arrays.\<close>

lemma ex_routines:
  assumes "internalForwardx ex_ext e d tr em ik ob = Some (alpha, scales)"
    and "internalBackward ex_ext e d tr em ob scales = Some beta"
  shows "alpha = ex_alpha" and "scales = ex_scales" and "beta = ex_beta"
  using assms by (simp_all add: ex_ext_def)

theorem gradient_length_and_layout_witness:
  "objectivex ex_ext ex_inp = Some (- 8, ex_grad) \<and> masks_wf ex_inp \<and> counts_fit ex_inp \<and>
   weights_finite ex_ext ex_inp \<and> dJ ex_inp = 2 \<and>
   length ex_grad = nnz_ANZ ex_inp + nnz_BNZ ex_inp + nnz_INZ ex_inp
     + (dJ ex_inp - 1) * coefs_nrow ex_inp \<and>
   ex_grad = map uminus (spec_transition_segment ex_inp ex_alpha ex_beta ex_scales
     @ spec_emission_segment ex_ext ex_inp ex_alpha ex_beta ex_scales
     @ spec_initial_segment ex_ext ex_inp ex_beta ex_scales
     @ spec_mixture_segment ex_ext ex_inp ex_beta ex_scales) \<and>
   objectivex ex_ext ex_single = Some (- 8, ex_grad_single) \<and> masks_wf ex_single \<and>
   counts_fit ex_single \<and> dJ ex_single = 1 \<and>
   weights_finite ex_ext ex_single \<and>
   length ex_grad_single = nnz_ANZ ex_single + nnz_BNZ ex_single + nnz_INZ ex_single \<and>
   spec_mixture_segment ex_ext ex_single ex_beta ex_scales = [] \<and>
   ex_grad_single = map uminus (spec_transition_segment ex_single ex_alpha ex_beta ex_scales
     @ spec_emission_segment ex_ext ex_single ex_alpha ex_beta ex_scales
     @ spec_initial_segment ex_ext ex_single ex_beta ex_scales
     @ spec_mixture_segment ex_ext ex_single ex_beta ex_scales) \<and>
   objectivex ex_ext ex_overflow = Some (1000, replicate 13 (- 1000)) \<and>
   length (replicate 13 (- 1000 :: real)) = grad_size ex_overflow \<and>
   objectivex ex_ext ex_wrap = Some (1000, replicate 9 (- 1000)) \<and>
   length (replicate 9 (- 1000 :: real)) = grad_size ex_wrap"
proof -
  have r: "objectivex ex_ext ex_inp = Some (- 8, ex_grad)" by code_simp
  have w: "masks_wf ex_inp" by code_simp
  have c: "counts_fit ex_inp" by code_simp
  have f: "weights_finite ex_ext ex_inp" by code_simp
  have j: "dJ ex_inp = 2" by code_simp
  have r1: "objectivex ex_ext ex_single = Some (- 8, ex_grad_single)" by code_simp
  have w1: "masks_wf ex_single" by code_simp
  have c1: "counts_fit ex_single" by code_simp
  have j1: "dJ ex_single = 1" by code_simp
  have f1: "weights_finite ex_ext ex_single" by code_simp
  have x1: "spec_mixture_segment ex_ext ex_single ex_beta ex_scales = []" by code_simp
  have r2: "objectivex ex_ext ex_overflow = Some (1000, replicate 13 (- 1000))" by code_simp
  have r3: "objectivex ex_ext ex_wrap = Some (1000, replicate 9 (- 1000))" by code_simp
  note t = gradient_length_and_layout[OF r] and t1 = gradient_length_and_layout[OF r1]
    and t2 = gradient_length_and_layout[OF r2] and t3 = gradient_length_and_layout[OF r3]
  from t w c f obtain alpha scales beta where
    "internalForwardx ex_ext (eDims ex_inp) (oDims ex_inp) (transitionMatrix ex_inp)
       (emissionArray ex_inp) (initk ex_ext ex_inp) (obsArray ex_inp) = Some (alpha, scales)"
    "internalBackward ex_ext (eDims ex_inp) (oDims ex_inp) (transitionMatrix ex_inp)
       (emissionArray ex_inp) (obsArray ex_inp) scales = Some beta"
    and g: "ex_grad = map uminus (spec_transition_segment ex_inp alpha beta scales
       @ spec_emission_segment ex_ext ex_inp alpha beta scales
       @ spec_initial_segment ex_ext ex_inp beta scales
       @ spec_mixture_segment ex_ext ex_inp beta scales)"
    by blast
  from ex_routines[OF this(1,2)] g
  have "ex_grad = map uminus (spec_transition_segment ex_inp ex_alpha ex_beta ex_scales
     @ spec_emission_segment ex_ext ex_inp ex_alpha ex_beta ex_scales
     @ spec_initial_segment ex_ext ex_inp ex_beta ex_scales
     @ spec_mixture_segment ex_ext ex_inp ex_beta ex_scales)"
    by simp
  moreover from t1 w1 c1 f1 obtain alpha1 scales1 beta1 where
    "internalForwardx ex_ext (eDims ex_single) (oDims ex_single) (transitionMatrix ex_single)
       (emissionArray ex_single) (initk ex_ext ex_single) (obsArray ex_single)
         = Some (alpha1, scales1)"
    "internalBackward ex_ext (eDims ex_single) (oDims ex_single) (transitionMatrix ex_single)
       (emissionArray ex_single) (obsArray ex_single) scales1 = Some beta1"
    and g1: "ex_grad_single = map uminus (spec_transition_segment ex_single alpha1 beta1 scales1
       @ spec_emission_segment ex_ext ex_single alpha1 beta1 scales1
       @ spec_initial_segment ex_ext ex_single beta1 scales1
       @ spec_mixture_segment ex_ext ex_single beta1 scales1)"
    by blast
  from ex_routines[OF this(1,2)] g1
  have "ex_grad_single = map uminus (spec_transition_segment ex_single ex_alpha ex_beta ex_scales
     @ spec_emission_segment ex_ext ex_single ex_alpha ex_beta ex_scales
     @ spec_initial_segment ex_ext ex_single ex_beta ex_scales
     @ spec_mixture_segment ex_ext ex_single ex_beta ex_scales)"
    by simp
  moreover from t w c have "length ex_grad = nnz_ANZ ex_inp + nnz_BNZ ex_inp + nnz_INZ ex_inp
     + (dJ ex_inp - 1) * coefs_nrow ex_inp" by blast
  moreover from t1 w1 c1 j1
  have "length ex_grad_single = nnz_ANZ ex_single + nnz_BNZ ex_single + nnz_INZ ex_single"
    by simp
  moreover from t2 have "length (replicate 13 (- 1000 :: real)) = grad_size ex_overflow"
    by blast
  moreover from t3 have "length (replicate 9 (- 1000 :: real)) = grad_size ex_wrap"
    by blast
  ultimately show ?thesis using r w c f j r1 w1 c1 j1 f1 x1 r2 r3 by blast
qed

section \<open>The objective\<close>

text \<open>
  Claim C2. On the path where the weights are finite, the returned objective is the
  negated total log-likelihood: the forward pass, called on the subject-specific initial
  vectors, succeeds with arrays \<open>alpha\<close> and \<open>scales\<close>, and the objective is
  \<open>- (\<Sum>k<K. \<Sum>t<N. log (scales t k))\<close>, where \<open>log\<close> is the logarithm of the library
  (\<open>log_d ext\<close>). Stated in exact arithmetic.
\<close>

theorem objective_neg_loglik:
  fixes ext :: "real extern"
  assumes "objectivex ext inp = Some (obj, grad)" and "weights_finite ext inp"
  shows "\<exists>alpha scales.
     internalForwardx ext (eDims inp) (oDims inp) (transitionMatrix inp) (emissionArray inp)
       (initk ext inp) (obsArray inp) = Some (alpha, scales) \<and>
     obj = - (\<Sum>k<dK inp. \<Sum>t<dN inp. log_d ext (scales t k))"
proof -
  from objectivex_normal[OF assms] obtain alpha scales where
    "internalForwardx ext (eDims inp) (oDims inp) (transitionMatrix inp) (emissionArray inp)
       (initk ext inp) (obsArray inp) = Some (alpha, scales)"
    "obj = - accu (dK inp) (ll ext inp scales)"
    by blast
  then show ?thesis by (auto simp: accu_sum ll_def)
qed

theorem objective_neg_loglik_witness:
  "objectivex ex_ext ex_inp = Some (- 8, ex_grad) \<and> weights_finite ex_ext ex_inp \<and>
   (\<exists>alpha scales.
      internalForwardx ex_ext (eDims ex_inp) (oDims ex_inp) (transitionMatrix ex_inp)
        (emissionArray ex_inp) (initk ex_ext ex_inp) (obsArray ex_inp) = Some (alpha, scales) \<and>
      (- 8 :: real) = - (\<Sum>k<dK ex_inp. \<Sum>t<dN ex_inp. log_d ex_ext (scales t k)))"
proof -
  have r: "objectivex ex_ext ex_inp = Some (- 8, ex_grad)" by code_simp
  have f: "weights_finite ex_ext ex_inp" by code_simp
  from objective_neg_loglik[OF r f] r f show ?thesis by blast
qed

section \<open>The overflow guard\<close>

text \<open>
  Claim C3. Let there be a symbol column (\<open>0 < P\<close>). If some entry of \<open>exp (X * coef)\<close>
  is not finite, the call returns the pair (\<open>DBL_MAX\<close>, the vector whose entries are all
  \<open>- DBL_MAX\<close>) whatever the forward and backward routines are: they are not consulted,
  and nothing is thrown. The vector has the length \<open>grad_size inp\<close> that line 26
  computes in 32 bits, which for masks as in the data model and a number of free
  parameters within the 32-bit range is the sum of the numbers of nonzero mask entries
  plus \<open>(J - 1) * q\<close>. If all entries are finite, a call that returns has gone through the
  forward pass and returns the negated log-likelihood with a gradient of the same
  length; and on inputs of consistent shapes (\<open>shapes_ok\<close>, \<open>counts_fit\<close>) the call does
  return this pair whenever the forward and the backward routine return.
  The theorem holds for every number type and every finiteness test.
\<close>

theorem overflow_short_circuit:
  fixes ext :: "'a::{zero,one,plus,minus,uminus,times,inverse} extern"
  assumes "0 < dP inp"
  shows "(\<not> weights_finite ext inp \<longrightarrow>
            objectivex (ext\<lparr>internalForwardx := f, internalBackward := b\<rparr>) inp =
              Some (DBL_MAX ext, replicate (grad_size inp) (- DBL_MAX ext)) \<and>
            (masks_wf inp \<and> counts_fit inp \<longrightarrow>
               grad_size inp =
                 nnz_ANZ inp + nnz_BNZ inp + nnz_INZ inp + (dJ inp - 1) * coefs_nrow inp)) \<and>
         (weights_finite ext inp \<longrightarrow>
            (\<forall>obj grad. objectivex ext inp = Some (obj, grad) \<longrightarrow>
               length grad = grad_size inp \<and>
               (\<exists>alpha scales.
                  internalForwardx ext (eDims inp) (oDims inp) (transitionMatrix inp)
                    (emissionArray inp) (initk ext inp) (obsArray inp) = Some (alpha, scales) \<and>
                  obj = - accu (dK inp) (ll ext inp scales)))) \<and>
         (weights_finite ext inp \<and> shapes_ok inp \<and> counts_fit inp \<longrightarrow>
            (\<forall>alpha scales beta.
               internalForwardx ext (eDims inp) (oDims inp) (transitionMatrix inp)
                 (emissionArray inp) (initk ext inp) (obsArray inp) = Some (alpha, scales) \<and>
               internalBackward ext (eDims inp) (oDims inp) (transitionMatrix inp)
                 (emissionArray inp) (obsArray inp) scales = Some beta \<longrightarrow>
               (\<exists>grad. objectivex ext inp = Some (- accu (dK inp) (ll ext inp scales), grad) \<and>
                  length grad = grad_size inp)))"
proof (intro conjI impI allI)
  assume nf: "\<not> weights_finite ext inp"
  then have "0 < dJ inp"
    by (cases "dJ inp") (simp_all add: weights_finite_def list_all_iff)
  moreover have "weights_finite (ext\<lparr>internalForwardx := f, internalBackward := b\<rparr>) inp
      = weights_finite ext inp"
    by (simp add: weights_finite_def exp_weights_def)
  ultimately show "objectivex (ext\<lparr>internalForwardx := f, internalBackward := b\<rparr>) inp =
      Some (DBL_MAX ext, replicate (grad_size inp) (- DBL_MAX ext))"
    using assms nf by (simp add: objectivex_def)
next
  assume nf: "\<not> weights_finite ext inp" and m: "masks_wf inp \<and> counts_fit inp"
  from nf have "0 < dJ inp"
    by (cases "dJ inp") (simp_all add: weights_finite_def list_all_iff)
  from grad_size_fit[OF conjunct1[OF m] conjunct2[OF m] this]
  show "grad_size inp = nnz_ANZ inp + nnz_BNZ inp + nnz_INZ inp + (dJ inp - 1) * coefs_nrow inp" .
next
  fix obj grad
  assume "weights_finite ext inp" and "objectivex ext inp = Some (obj, grad)"
  then show "length grad = grad_size inp"
    by (simp add: objectivex_length)
next
  fix obj grad
  assume "weights_finite ext inp" and "objectivex ext inp = Some (obj, grad)"
  from objectivex_normal[OF this(2,1)]
  show "\<exists>alpha scales.
      internalForwardx ext (eDims inp) (oDims inp) (transitionMatrix inp)
        (emissionArray inp) (initk ext inp) (obsArray inp) = Some (alpha, scales) \<and>
      obj = - accu (dK inp) (ll ext inp scales)"
    by blast
next
  fix alpha scales beta
  assume a: "weights_finite ext inp \<and> shapes_ok inp \<and> counts_fit inp"
    and r: "internalForwardx ext (eDims inp) (oDims inp) (transitionMatrix inp)
        (emissionArray inp) (initk ext inp) (obsArray inp) = Some (alpha, scales) \<and>
      internalBackward ext (eDims inp) (oDims inp) (transitionMatrix inp)
        (emissionArray inp) (obsArray inp) scales = Some beta"
  from a have fin: "weights_finite ext inp" and ok: "shapes_ok inp" and fit: "counts_fit inp"
    by simp_all
  from objectivex_total[OF ok fit conjunct1[OF r] conjunct2[OF r]]
  obtain obj grad where o: "objectivex ext inp = Some (obj, grad)" by blast
  from objectivex_normal[OF o fin] r
  have "obj = - accu (dK inp) (ll ext inp scales)" by auto
  moreover have "length grad = grad_size inp"
    using o by (simp add: objectivex_length)
  ultimately show "\<exists>grad. objectivex ext inp = Some (- accu (dK inp) (ll ext inp scales), grad) \<and>
      length grad = grad_size inp"
    using o by blast
qed

theorem overflow_short_circuit_witness:
  "\<not> weights_finite ex_ext ex_overflow \<and>
   objectivex (ex_ext\<lparr>internalForwardx := (\<lambda>e d tr em ik ob. None),
       internalBackward := (\<lambda>e d tr em ob sc. None)\<rparr>) ex_overflow =
     Some (1000, replicate 13 (- 1000)) \<and>
   masks_wf ex_overflow \<and> counts_fit ex_overflow \<and>
   nnz_ANZ ex_overflow + nnz_BNZ ex_overflow + nnz_INZ ex_overflow
     + (dJ ex_overflow - 1) * coefs_nrow ex_overflow = 13 \<and>
   \<not> weights_finite ex_ext ex_wrap \<and>
   objectivex (ex_ext\<lparr>internalForwardx := (\<lambda>e d tr em ik ob. None),
       internalBackward := (\<lambda>e d tr em ob sc. None)\<rparr>) ex_wrap =
     Some (1000, replicate 9 (- 1000)) \<and>
   weights_finite ex_ext ex_inp \<and> objectivex ex_ext ex_inp = Some (- 8, ex_grad) \<and>
   length ex_grad = grad_size ex_inp \<and> shapes_ok ex_inp \<and> counts_fit ex_inp \<and>
   (\<exists>grad. objectivex ex_ext ex_inp = Some (- accu (dK ex_inp) (ll ex_ext ex_inp ex_scales), grad) \<and>
      length grad = grad_size ex_inp)"
proof -
  have p: "0 < dP ex_overflow" "grad_size ex_overflow = 13" "DBL_MAX ex_ext = 1000"
    "masks_wf ex_overflow" "counts_fit ex_overflow"
    by code_simp+
  have nf: "\<not> weights_finite ex_ext ex_overflow" by code_simp
  have p': "0 < dP ex_wrap" "grad_size ex_wrap = 9" by code_simp+
  have nf': "\<not> weights_finite ex_ext ex_wrap" by code_simp
  have q: "0 < dP ex_inp" by code_simp
  have f: "weights_finite ex_ext ex_inp" by code_simp
  have r: "objectivex ex_ext ex_inp = Some (- 8, ex_grad)" by code_simp
  have s: "shapes_ok ex_inp" "counts_fit ex_inp" by code_simp+
  from overflow_short_circuit[OF p(1), of ex_ext] nf p(4,5)
  have "objectivex (ex_ext\<lparr>internalForwardx := (\<lambda>e d tr em ik ob. None),
       internalBackward := (\<lambda>e d tr em ob sc. None)\<rparr>) ex_overflow =
     Some (DBL_MAX ex_ext, replicate (grad_size ex_overflow) (- DBL_MAX ex_ext))"
    and "grad_size ex_overflow = nnz_ANZ ex_overflow + nnz_BNZ ex_overflow + nnz_INZ ex_overflow
     + (dJ ex_overflow - 1) * coefs_nrow ex_overflow"
    by blast+
  then have 1: "objectivex (ex_ext\<lparr>internalForwardx := (\<lambda>e d tr em ik ob. None),
       internalBackward := (\<lambda>e d tr em ob sc. None)\<rparr>) ex_overflow =
     Some (1000, replicate 13 (- 1000))"
    and 2: "nnz_ANZ ex_overflow + nnz_BNZ ex_overflow + nnz_INZ ex_overflow
     + (dJ ex_overflow - 1) * coefs_nrow ex_overflow = 13"
    by (simp_all only: p(2,3))
  from overflow_short_circuit[OF p'(1), of ex_ext] nf'
  have "objectivex (ex_ext\<lparr>internalForwardx := (\<lambda>e d tr em ik ob. None),
       internalBackward := (\<lambda>e d tr em ob sc. None)\<rparr>) ex_wrap =
     Some (DBL_MAX ex_ext, replicate (grad_size ex_wrap) (- DBL_MAX ex_ext))"
    by blast
  then have 3: "objectivex (ex_ext\<lparr>internalForwardx := (\<lambda>e d tr em ik ob. None),
       internalBackward := (\<lambda>e d tr em ob sc. None)\<rparr>) ex_wrap =
     Some (1000, replicate 9 (- 1000))"
    by (simp only: p'(2) p(3))
  from overflow_short_circuit[OF q, of ex_ext] f r
  have 4: "length ex_grad = grad_size ex_inp" by blast
  have
    "internalForwardx ex_ext (eDims ex_inp) (oDims ex_inp) (transitionMatrix ex_inp)
       (emissionArray ex_inp) (initk ex_ext ex_inp) (obsArray ex_inp) = Some (ex_alpha, ex_scales)"
    "internalBackward ex_ext (eDims ex_inp) (oDims ex_inp) (transitionMatrix ex_inp)
       (emissionArray ex_inp) (obsArray ex_inp) ex_scales = Some ex_beta"
    by (simp_all add: ex_ext_def)
  with overflow_short_circuit[OF q, of ex_ext] f s
  have 5: "\<exists>grad. objectivex ex_ext ex_inp
        = Some (- accu (dK ex_inp) (ll ex_ext ex_inp ex_scales), grad) \<and>
      length grad = grad_size ex_inp"
    by blast
  from 1 2 3 4 5 nf nf' f r s p(4,5) show ?thesis by blast
qed

section \<open>The four segments of the gradient\<close>

text \<open>
  The theorems of this section are about a call that returns on the path of finite
  weights, for masks as in the data model (\<open>masks_wf\<close>) and a number of free
  parameters within the range of the 32-bit integers that count them (\<open>counts_fit\<close>),
  so that the sums of line 26 and of the guards do not wrap around. \<open>alpha\<close>, \<open>scales\<close>
  and \<open>beta\<close> are what the forward and backward routines returned. All are stated in exact
  arithmetic; the returned gradient is the negation of the vector that the passes fill.
\<close>

lemma segment_first: "g = map f (A @ B) \<Longrightarrow> take (length A) g = map f A"
  by simp

lemma segment_second:
  "g = map f (A @ B @ C) \<Longrightarrow> take (length B) (drop (length A) g) = map f B"
  by simp

lemma segment_third:
  "g = map f (A @ B @ C @ D) \<Longrightarrow> take (length C) (drop (length A + length B) g) = map f C"
  by simp

text \<open>
  Claim C4. The returned gradient starts with the negated transition segment. By
  \<open>spec_transition_segment\<close>, \<open>spec_transition_row\<close> and \<open>spec_transition_raw\<close> this
  segment is, block after block and source state after source state, (3) the entries at
  the nonzero positions of the mask within the block row of (2) the product of the
  simplex Jacobian \<open>diag(p) - p p\<^sup>T\<close> of the block-restricted transition row \<open>p\<close> with
  (1) the raw vector whose component \<open>j\<close> is the sum over the subjects \<open>k\<close> and the time
  steps \<open>t < N - 1\<close> of \<open>alpha(i,t,k) * (\<Prod>r. emission(j, obs(k,t+1,r), r)) * beta(j,t+1,k)
  / scales(t+1,k)\<close>.
\<close>

theorem transition_segment_of_gradient:
  fixes inp :: "real input"
  assumes "objectivex ext inp = Some (obj, grad)" and "weights_finite ext inp"
    and "masks_wf inp" and "counts_fit inp"
  shows "\<exists>alpha scales beta.
     internalForwardx ext (eDims inp) (oDims inp) (transitionMatrix inp) (emissionArray inp)
       (initk ext inp) (obsArray inp) = Some (alpha, scales) \<and>
     internalBackward ext (eDims inp) (oDims inp) (transitionMatrix inp) (emissionArray inp)
       (obsArray inp) scales = Some beta \<and>
     take (length (spec_transition_segment inp alpha beta scales)) grad
       = map uminus (spec_transition_segment inp alpha beta scales)"
proof -
  from objectivex_layout[OF assms] obtain alpha scales beta where
    "internalForwardx ext (eDims inp) (oDims inp) (transitionMatrix inp) (emissionArray inp)
       (initk ext inp) (obsArray inp) = Some (alpha, scales)"
    "internalBackward ext (eDims inp) (oDims inp) (transitionMatrix inp) (emissionArray inp)
       (obsArray inp) scales = Some beta"
    and g: "grad = map uminus (spec_transition_segment inp alpha beta scales
       @ spec_emission_segment ext inp alpha beta scales
       @ spec_initial_segment ext inp beta scales
       @ spec_mixture_segment ext inp beta scales)"
    by blast
  from this(1,2) segment_first[OF g] show ?thesis by blast
qed

theorem transition_segment_of_gradient_witness:
  "objectivex ex_ext ex_inp = Some (- 8, ex_grad) \<and> weights_finite ex_ext ex_inp \<and>
   masks_wf ex_inp \<and> counts_fit ex_inp \<and>
   spec_transition_segment ex_inp ex_alpha ex_beta ex_scales
     = [- (5 / 128), 5 / 128, - (5 / 64), 5 / 64] \<and>
   take 4 ex_grad = map uminus (spec_transition_segment ex_inp ex_alpha ex_beta ex_scales)"
proof -
  have r: "objectivex ex_ext ex_inp = Some (- 8, ex_grad)" by code_simp
  have f: "weights_finite ex_ext ex_inp" by code_simp
  have w: "masks_wf ex_inp" by code_simp
  have ft: "counts_fit ex_inp" by code_simp
  have v: "spec_transition_segment ex_inp ex_alpha ex_beta ex_scales
     = [- (5 / 128), 5 / 128, - (5 / 64), 5 / 64]" by code_simp
  have u: "length (spec_transition_segment ex_inp ex_alpha ex_beta ex_scales) = 4" by code_simp
  from transition_segment_of_gradient[OF r f w ft] obtain alpha scales beta where
    "internalForwardx ex_ext (eDims ex_inp) (oDims ex_inp) (transitionMatrix ex_inp)
       (emissionArray ex_inp) (initk ex_ext ex_inp) (obsArray ex_inp) = Some (alpha, scales)"
    "internalBackward ex_ext (eDims ex_inp) (oDims ex_inp) (transitionMatrix ex_inp)
       (emissionArray ex_inp) (obsArray ex_inp) scales = Some beta"
    and g: "take (length (spec_transition_segment ex_inp alpha beta scales)) ex_grad
       = map uminus (spec_transition_segment ex_inp alpha beta scales)"
    by blast
  from ex_routines[OF this(1,2)] g
  have "take (length (spec_transition_segment ex_inp ex_alpha ex_beta ex_scales)) ex_grad
       = map uminus (spec_transition_segment ex_inp ex_alpha ex_beta ex_scales)"
    by simp
  then have "take 4 ex_grad = map uminus (spec_transition_segment ex_inp ex_alpha ex_beta ex_scales)"
    by (simp only: u)
  with r f w ft v show ?thesis by blast
qed

text \<open>
  Claim C5. After the transition segment comes the negated emission segment. By
  \<open>spec_emission_segment\<close>, \<open>spec_emission_row\<close> and \<open>spec_emission_raw\<close> this segment is,
  channel after channel and state after state, (3) the entries at the nonzero positions
  of the mask row \<^verbatim>\<open>BNZ.slice(r).row(i)\<close> of (2) the product of the simplex Jacobian of
  the emission row of state \<open>i\<close> in channel \<open>r\<close>, restricted to the alphabet of the channel,
  with (1) the raw vector whose component \<open>v\<close> is the sum, over the subjects \<open>k\<close> and the
  time steps \<open>t\<close> at which the symbol of channel \<open>r\<close> is \<open>v\<close>, of
  \<open>initk(i,k) * (product over the other channels) * beta(i,0,k) / scales(0,k)\<close> for
  \<open>t = 0\<close> and of \<open>(\<Sum>s. alpha(s,t-1,k) * transition(s,i)) * (product over the other
  channels) * beta(i,t,k) / scales(t,k)\<close> for \<open>t > 0\<close>.
\<close>

theorem emission_segment_of_gradient:
  fixes inp :: "real input"
  assumes "objectivex ext inp = Some (obj, grad)" and "weights_finite ext inp"
    and "masks_wf inp" and "counts_fit inp"
  shows "\<exists>alpha scales beta.
     internalForwardx ext (eDims inp) (oDims inp) (transitionMatrix inp) (emissionArray inp)
       (initk ext inp) (obsArray inp) = Some (alpha, scales) \<and>
     internalBackward ext (eDims inp) (oDims inp) (transitionMatrix inp) (emissionArray inp)
       (obsArray inp) scales = Some beta \<and>
     take (length (spec_emission_segment ext inp alpha beta scales))
         (drop (length (spec_transition_segment inp alpha beta scales)) grad)
       = map uminus (spec_emission_segment ext inp alpha beta scales)"
proof -
  from objectivex_layout[OF assms] obtain alpha scales beta where
    "internalForwardx ext (eDims inp) (oDims inp) (transitionMatrix inp) (emissionArray inp)
       (initk ext inp) (obsArray inp) = Some (alpha, scales)"
    "internalBackward ext (eDims inp) (oDims inp) (transitionMatrix inp) (emissionArray inp)
       (obsArray inp) scales = Some beta"
    and g: "grad = map uminus (spec_transition_segment inp alpha beta scales
       @ spec_emission_segment ext inp alpha beta scales
       @ spec_initial_segment ext inp beta scales
       @ spec_mixture_segment ext inp beta scales)"
    by blast
  from this(1,2) segment_second[OF g] show ?thesis by blast
qed

theorem emission_segment_of_gradient_witness:
  "objectivex ex_ext ex_inp = Some (- 8, ex_grad) \<and> weights_finite ex_ext ex_inp \<and>
   masks_wf ex_inp \<and> counts_fit ex_inp \<and>
   spec_emission_segment ex_ext ex_inp ex_alpha ex_beta ex_scales
     = [- (1 / 192), 1 / 192, 1 / 768, - (1 / 768), - (7 / 64), 7 / 64] \<and>
   take 6 (drop 4 ex_grad)
     = map uminus (spec_emission_segment ex_ext ex_inp ex_alpha ex_beta ex_scales)"
proof -
  have r: "objectivex ex_ext ex_inp = Some (- 8, ex_grad)" by code_simp
  have f: "weights_finite ex_ext ex_inp" by code_simp
  have w: "masks_wf ex_inp" by code_simp
  have ft: "counts_fit ex_inp" by code_simp
  have u: "length (spec_transition_segment ex_inp ex_alpha ex_beta ex_scales) = 4"
    "length (spec_emission_segment ex_ext ex_inp ex_alpha ex_beta ex_scales) = 6" by code_simp+
  have v: "spec_emission_segment ex_ext ex_inp ex_alpha ex_beta ex_scales
     = [- (1 / 192), 1 / 192, 1 / 768, - (1 / 768), - (7 / 64), 7 / 64]" by code_simp
  from emission_segment_of_gradient[OF r f w ft] obtain alpha scales beta where
    "internalForwardx ex_ext (eDims ex_inp) (oDims ex_inp) (transitionMatrix ex_inp)
       (emissionArray ex_inp) (initk ex_ext ex_inp) (obsArray ex_inp) = Some (alpha, scales)"
    "internalBackward ex_ext (eDims ex_inp) (oDims ex_inp) (transitionMatrix ex_inp)
       (emissionArray ex_inp) (obsArray ex_inp) scales = Some beta"
    and g: "take (length (spec_emission_segment ex_ext ex_inp alpha beta scales))
         (drop (length (spec_transition_segment ex_inp alpha beta scales)) ex_grad)
       = map uminus (spec_emission_segment ex_ext ex_inp alpha beta scales)"
    by blast
  from ex_routines[OF this(1,2)] g
  have "take (length (spec_emission_segment ex_ext ex_inp ex_alpha ex_beta ex_scales))
         (drop (length (spec_transition_segment ex_inp ex_alpha ex_beta ex_scales)) ex_grad)
       = map uminus (spec_emission_segment ex_ext ex_inp ex_alpha ex_beta ex_scales)"
    by simp
  then have "take 6 (drop 4 ex_grad)
     = map uminus (spec_emission_segment ex_ext ex_inp ex_alpha ex_beta ex_scales)"
    by (simp only: u)
  with r f w ft v show ?thesis by blast
qed

text \<open>
  Claim C6. After the emission segment comes the negated initial segment. By
  \<open>spec_initial_segment\<close>, \<open>spec_initial_block\<close> and \<open>spec_initial_raw\<close> this segment is,
  block after block (a block with no free initial entry contributes nothing), (3) the
  entries at the nonzero positions of the mask within the block of (2) the product of
  the simplex Jacobian of the block's slice of the initial distribution with (1) the raw
  vector whose component \<open>j\<close> is the sum over the subjects \<open>k\<close> of
  \<open>(\<Prod>r. emission(j, obs(k,0,r), r)) * beta(j,0,k) / scales(0,k) * lweights(i,k)\<close>.
\<close>

theorem initial_segment_of_gradient:
  fixes inp :: "real input"
  assumes "objectivex ext inp = Some (obj, grad)" and "weights_finite ext inp"
    and "masks_wf inp" and "counts_fit inp"
  shows "\<exists>alpha scales beta.
     internalForwardx ext (eDims inp) (oDims inp) (transitionMatrix inp) (emissionArray inp)
       (initk ext inp) (obsArray inp) = Some (alpha, scales) \<and>
     internalBackward ext (eDims inp) (oDims inp) (transitionMatrix inp) (emissionArray inp)
       (obsArray inp) scales = Some beta \<and>
     take (length (spec_initial_segment ext inp beta scales))
         (drop (length (spec_transition_segment inp alpha beta scales)
                + length (spec_emission_segment ext inp alpha beta scales)) grad)
       = map uminus (spec_initial_segment ext inp beta scales)"
proof -
  from objectivex_layout[OF assms] obtain alpha scales beta where
    "internalForwardx ext (eDims inp) (oDims inp) (transitionMatrix inp) (emissionArray inp)
       (initk ext inp) (obsArray inp) = Some (alpha, scales)"
    "internalBackward ext (eDims inp) (oDims inp) (transitionMatrix inp) (emissionArray inp)
       (obsArray inp) scales = Some beta"
    and g: "grad = map uminus (spec_transition_segment inp alpha beta scales
       @ spec_emission_segment ext inp alpha beta scales
       @ spec_initial_segment ext inp beta scales
       @ spec_mixture_segment ext inp beta scales)"
    by blast
  from this(1,2) segment_third[OF g] show ?thesis by blast
qed

theorem initial_segment_of_gradient_witness:
  "objectivex ex_ext ex_inp = Some (- 8, ex_grad) \<and> weights_finite ex_ext ex_inp \<and>
   masks_wf ex_inp \<and> counts_fit ex_inp \<and>
   spec_initial_segment ex_ext ex_inp ex_beta ex_scales = [- (5 / 192), 5 / 192] \<and>
   take 2 (drop (4 + 6) ex_grad)
     = map uminus (spec_initial_segment ex_ext ex_inp ex_beta ex_scales)"
proof -
  have r: "objectivex ex_ext ex_inp = Some (- 8, ex_grad)" by code_simp
  have f: "weights_finite ex_ext ex_inp" by code_simp
  have w: "masks_wf ex_inp" by code_simp
  have ft: "counts_fit ex_inp" by code_simp
  have u: "length (spec_transition_segment ex_inp ex_alpha ex_beta ex_scales) = 4"
    "length (spec_emission_segment ex_ext ex_inp ex_alpha ex_beta ex_scales) = 6"
    "length (spec_initial_segment ex_ext ex_inp ex_beta ex_scales) = 2" by code_simp+
  have v: "spec_initial_segment ex_ext ex_inp ex_beta ex_scales = [- (5 / 192), 5 / 192]"
    by code_simp
  from initial_segment_of_gradient[OF r f w ft] obtain alpha scales beta where
    "internalForwardx ex_ext (eDims ex_inp) (oDims ex_inp) (transitionMatrix ex_inp)
       (emissionArray ex_inp) (initk ex_ext ex_inp) (obsArray ex_inp) = Some (alpha, scales)"
    "internalBackward ex_ext (eDims ex_inp) (oDims ex_inp) (transitionMatrix ex_inp)
       (emissionArray ex_inp) (obsArray ex_inp) scales = Some beta"
    and g: "take (length (spec_initial_segment ex_ext ex_inp beta scales))
         (drop (length (spec_transition_segment ex_inp alpha beta scales)
                + length (spec_emission_segment ex_ext ex_inp alpha beta scales)) ex_grad)
       = map uminus (spec_initial_segment ex_ext ex_inp beta scales)"
    by blast
  from ex_routines[OF this(1,2)] g
  have "take (length (spec_initial_segment ex_ext ex_inp ex_beta ex_scales))
         (drop (length (spec_transition_segment ex_inp ex_alpha ex_beta ex_scales)
                + length (spec_emission_segment ex_ext ex_inp ex_alpha ex_beta ex_scales)) ex_grad)
       = map uminus (spec_initial_segment ex_ext ex_inp ex_beta ex_scales)"
    by simp
  then have "take 2 (drop (4 + 6) ex_grad)
     = map uminus (spec_initial_segment ex_ext ex_inp ex_beta ex_scales)"
    by (simp only: u)
  with r f w ft v show ?thesis by blast
qed

text \<open>
  Claim C7. The last \<open>(J - 1) * q\<close> entries of the returned gradient are the negated
  mixture-coefficient segment: for every block \<open>jj\<close> from 1 to \<open>J - 1\<close> and every covariate
  \<open>l < q\<close>, the entry at position \<open>q * (jj - 1) + l\<close> of these last entries is the negation
  of \<open>spec_mixture_entry\<close>, the sum over the subjects \<open>k\<close> and all states \<open>s\<close> of
  \<open>(\<Prod>r. emission(s, obs(k,0,r), r)) * beta(s,0,k) / scales(0,k) * initk(s,k) * X(k,l)\<close>
  times \<open>1 - lweights(jj,k)\<close> when \<open>s\<close> is a state of block \<open>jj\<close> and times
  \<open>- lweights(jj,k)\<close> otherwise. The negation is that of line 173: the entries of the
  vector that the loop fills are the sums themselves.
\<close>

theorem mixture_segment_of_gradient:
  fixes inp :: "real input"
  assumes "objectivex ext inp = Some (obj, grad)" and "weights_finite ext inp"
    and "masks_wf inp" and "counts_fit inp"
  shows "\<exists>alpha scales beta.
     internalForwardx ext (eDims inp) (oDims inp) (transitionMatrix inp) (emissionArray inp)
       (initk ext inp) (obsArray inp) = Some (alpha, scales) \<and>
     internalBackward ext (eDims inp) (oDims inp) (transitionMatrix inp) (emissionArray inp)
       (obsArray inp) scales = Some beta \<and>
     (dJ inp - 1) * coefs_nrow inp \<le> length grad \<and>
     drop (length grad - (dJ inp - 1) * coefs_nrow inp) grad
       = map uminus (spec_mixture_segment ext inp beta scales) \<and>
     (\<forall>jj l. 1 \<le> jj \<and> jj < dJ inp \<and> l < coefs_nrow inp \<longrightarrow>
        grad ! (length grad - (dJ inp - 1) * coefs_nrow inp + coefs_nrow inp * (jj - 1) + l)
          = - spec_mixture_entry ext inp beta scales jj l)"
proof -
  from objectivex_layout[OF assms] obtain alpha scales beta where
    fw: "internalForwardx ext (eDims inp) (oDims inp) (transitionMatrix inp) (emissionArray inp)
       (initk ext inp) (obsArray inp) = Some (alpha, scales)"
    and bw: "internalBackward ext (eDims inp) (oDims inp) (transitionMatrix inp)
       (emissionArray inp) (obsArray inp) scales = Some beta"
    and g: "grad = map uminus (spec_transition_segment inp alpha beta scales
       @ spec_emission_segment ext inp alpha beta scales
       @ spec_initial_segment ext inp beta scales
       @ spec_mixture_segment ext inp beta scales)"
    by blast
  define S where "S = spec_transition_segment inp alpha beta scales
       @ spec_emission_segment ext inp alpha beta scales
       @ spec_initial_segment ext inp beta scales"
  define X where "X = spec_mixture_segment ext inp beta scales"
  define q where "q = coefs_nrow inp"
  have g': "grad = map uminus S @ map uminus X" by (simp add: g S_def X_def)
  have lX: "length X = (dJ inp - 1) * q"
    by (simp add: X_def spec_mixture_segment_def length_concat_fixed q_def)
  have off: "length grad - (dJ inp - 1) * q = length S" by (simp add: g' lX)
  have le: "(dJ inp - 1) * q \<le> length grad" by (simp add: g' lX)
  have dr: "drop (length grad - (dJ inp - 1) * q) grad = map uminus X"
    unfolding off by (simp add: g')
  have en: "grad ! (length grad - (dJ inp - 1) * q + q * (jj - 1) + l)
      = - spec_mixture_entry ext inp beta scales jj l"
    if "1 \<le> jj" "jj < dJ inp" "l < q" for jj l
  proof -
    have i: "jj - 1 < length [1..<dJ inp]" using that by simp
    have d: "q * (jj - 1) + l < length X"
    proof -
      have "q * (jj - 1) + l < q * (jj - 1) + q" using that(3) by simp
      also have "\<dots> = q * jj" using that(1) by (cases jj) simp_all
      also have "\<dots> \<le> q * (dJ inp - 1)"
        using that(2) by (intro mult_le_mono2) simp
      finally show ?thesis by (simp add: lX mult.commute)
    qed
    have "grad ! (length S + (q * (jj - 1) + l)) = map uminus X ! (q * (jj - 1) + l)"
      unfolding g' by (metis length_map nth_append_length_plus)
    also have "\<dots> = - (X ! (q * (jj - 1) + l))" using d by simp
    also have "X ! (q * (jj - 1) + l) = spec_mixture_entry ext inp beta scales jj l"
      using nth_concat_fixed[OF i that(3), of "spec_mixture_entry ext inp beta scales"] that(1,2)
      by (simp add: X_def spec_mixture_segment_def q_def)
    finally show ?thesis unfolding off by (simp only: add.assoc)
  qed
  from fw bw le dr en show ?thesis
    unfolding X_def q_def by blast
qed

theorem mixture_segment_of_gradient_witness:
  "objectivex ex_ext ex_inp = Some (- 8, ex_grad) \<and> weights_finite ex_ext ex_inp \<and>
   masks_wf ex_inp \<and> counts_fit ex_inp \<and> dJ ex_inp = 2 \<and> coefs_nrow ex_inp = 1 \<and> length ex_grad = 13 \<and>
   spec_mixture_entry ex_ext ex_inp ex_beta ex_scales 1 0 = 5 / 96 \<and>
   drop 12 ex_grad = map uminus (spec_mixture_segment ex_ext ex_inp ex_beta ex_scales) \<and>
   ex_grad ! 12 = - spec_mixture_entry ex_ext ex_inp ex_beta ex_scales 1 0"
proof -
  have r: "objectivex ex_ext ex_inp = Some (- 8, ex_grad)" by code_simp
  have f: "weights_finite ex_ext ex_inp" by code_simp
  have w: "masks_wf ex_inp" by code_simp
  have ft: "counts_fit ex_inp" by code_simp
  have u: "dJ ex_inp = 2" "coefs_nrow ex_inp = 1" "length ex_grad = 13" by code_simp+
  have v: "spec_mixture_entry ex_ext ex_inp ex_beta ex_scales 1 0 = 5 / 96" by code_simp
  from mixture_segment_of_gradient[OF r f w ft] obtain alpha scales beta where
    "internalForwardx ex_ext (eDims ex_inp) (oDims ex_inp) (transitionMatrix ex_inp)
       (emissionArray ex_inp) (initk ex_ext ex_inp) (obsArray ex_inp) = Some (alpha, scales)"
    "internalBackward ex_ext (eDims ex_inp) (oDims ex_inp) (transitionMatrix ex_inp)
       (emissionArray ex_inp) (obsArray ex_inp) scales = Some beta"
    and g: "drop (length ex_grad - (dJ ex_inp - 1) * coefs_nrow ex_inp) ex_grad
       = map uminus (spec_mixture_segment ex_ext ex_inp beta scales)"
    and e: "\<forall>jj l. 1 \<le> jj \<and> jj < dJ ex_inp \<and> l < coefs_nrow ex_inp \<longrightarrow>
        ex_grad ! (length ex_grad - (dJ ex_inp - 1) * coefs_nrow ex_inp
            + coefs_nrow ex_inp * (jj - 1) + l)
          = - spec_mixture_entry ex_ext ex_inp beta scales jj l"
    by blast
  from ex_routines[OF this(1,2)] have b: "beta = ex_beta" "scales = ex_scales" by simp_all
  from g have "drop 12 ex_grad = map uminus (spec_mixture_segment ex_ext ex_inp ex_beta ex_scales)"
    by (simp add: u b)
  moreover from e[rule_format, of 1 0]
  have "ex_grad ! 12 = - spec_mixture_entry ex_ext ex_inp ex_beta ex_scales 1 0"
    by (simp add: u b)
  ultimately show ?thesis using r f w ft u v by blast
qed

section \<open>Mixture weights and initial vectors\<close>

text \<open>
  Claim C8. The claim holds in exact arithmetic: with the exponential function for
  \<open>exp_d\<close>, the mixture weight of subject \<open>k\<close> for block \<open>j < J\<close> is
  \<open>exp (L k j) / (\<Sum>j'<J. exp (L k j'))\<close>, where \<open>L k j\<close> is the product of row \<open>k\<close> of
  \<open>X\<close> with column \<open>j\<close> of the caller's coefficients, column 0 counting as zero; the
  weights are nonnegative and, for every subject, sum to 1.
\<close>

lemma lweights_softmax_exact:
  fixes ext :: "real extern"
  assumes e: "exp_d ext = exp" and j: "j < dJ inp"
  shows "lweights ext inp j k =
           exp (\<Sum>l<coefs_nrow inp. X_in inp k l * (if j = 0 then 0 else coefs inp l j)) /
           (\<Sum>j'<dJ inp. exp (\<Sum>l<coefs_nrow inp.
              X_in inp k l * (if j' = 0 then 0 else coefs inp l j'))) \<and>
         0 \<le> lweights ext inp j k \<and>
         (\<Sum>j<dJ inp. lweights ext inp j k) = 1"
proof -
  let ?L = "\<lambda>j. \<Sum>l<coefs_nrow inp. X_in inp k l * (if j = 0 then 0 else coefs inp l j)"
  let ?S = "\<Sum>j'<dJ inp. exp (?L j')"
  have L: "X_coef inp k j = ?L j" if "j < dJ inp" for j
    unfolding X_coef_def accu_sum
    by (rule sum.cong[OF refl]) (simp add: coef_def that)
  have S: "accu (dJ inp) (\<lambda>j'. exp_weights ext inp j' k) = ?S"
    unfolding accu_sum exp_weights_def e
    by (rule sum.cong[OF refl]) (simp add: L)
  have lw: "lweights ext inp j k = exp (?L j) / ?S" if "j < dJ inp" for j
    unfolding lweights_def S by (simp add: exp_weights_def e L[OF that])
  have pos: "0 < ?S"
    using j by (intro sum_pos) auto
  have "(\<Sum>j<dJ inp. lweights ext inp j k) = (\<Sum>j<dJ inp. exp (?L j) / ?S)"
    by (rule sum.cong[OF refl]) (simp add: lw)
  also have "\<dots> = ?S / ?S"
    by (rule sum_divide_distrib[symmetric])
  also have "\<dots> = 1" using pos by simp
  finally have one: "(\<Sum>j<dJ inp. lweights ext inp j k) = 1" .
  have "0 \<le> lweights ext inp j k"
    unfolding lw[OF j] using pos by (intro divide_nonneg_pos) simp_all
  with one lw[OF j] show ?thesis by blast
qed

text \<open>
  In doubles the claim fails on the path that the guard of line 31 leaves open. The
  guard looks at the exponentials one by one, not at their sum. In the example \<open>dbl_inp\<close>
  the linear predictors of the only subject are \<open>0\<close>, \<open>709.5\<close> and \<open>709.5\<close>: the three
  exponentials are finite, so the guard is passed, their sum is infinite, and line 36
  divides every exponential by it. All three weights are 0, their sum is 0 and not 1,
  and the initial vector \<open>initk\<close> that the forward routine is called with is zero.
\<close>

theorem mixture_weights_sum_overflow:
  "weights_finite dbl_ext dbl_inp \<and>
   map (\<lambda>j. X_coef dbl_inp 0 j) [0..<dJ dbl_inp] = [Fin 0, Fin (1419 / 2), Fin (1419 / 2)] \<and>
   map (\<lambda>j. exp_weights dbl_ext dbl_inp j 0) [0..<dJ dbl_inp] =
     [Fin 1, Fin (6789051773538505 * 2 ^ 971), Fin (6789051773538505 * 2 ^ 971)] \<and>
   accu (dJ dbl_inp) (\<lambda>j. exp_weights dbl_ext dbl_inp j 0) = PInf \<and>
   map (\<lambda>j. lweights dbl_ext dbl_inp j 0) [0..<dJ dbl_inp] = [0, 0, 0] \<and>
   accu (dJ dbl_inp) (\<lambda>j. lweights dbl_ext dbl_inp j 0) = 0 \<and>
   accu (dJ dbl_inp) (\<lambda>j. lweights dbl_ext dbl_inp j 0) \<noteq> 1 \<and>
   map (\<lambda>s. initk dbl_ext dbl_inp s 0) [0..<dM dbl_inp] = [0, 0, 0]"
proof -
  have d: "dJ dbl_inp = 3" "dK dbl_inp = 1" "dM dbl_inp = 3" "coefs_nrow dbl_inp = 1"
    by (simp_all add: dbl_inp_def dJ_def dK_def dM_def)
  have u: "[0..<3] = [0, 1, 2]" "[0..<1] = [0]" by (simp_all add: upt_rec)
  have x: "X_coef dbl_inp 0 0 = Fin 0" "X_coef dbl_inp 0 1 = Fin (1419 / 2)"
    "X_coef dbl_inp 0 2 = Fin (1419 / 2)"
    unfolding X_coef_def coef_def d accu_def u
    by (simp_all add: dbl_inp_def zero_dbl_def round_dbl_def dbl_max_def)
  have e: "exp_weights dbl_ext dbl_inp 0 0 = Fin 1"
    "exp_weights dbl_ext dbl_inp 1 0 = Fin (6789051773538505 * 2 ^ 971)"
    "exp_weights dbl_ext dbl_inp 2 0 = Fin (6789051773538505 * 2 ^ 971)"
    unfolding exp_weights_def x by (simp_all add: dbl_ext_def dbl_exp_def)
  have s: "accu (dJ dbl_inp) (\<lambda>j. exp_weights dbl_ext dbl_inp j 0) = PInf"
    unfolding d accu_def u foldl.simps e by (simp add: zero_dbl_def round_dbl_def dbl_max_def)
  have l: "lweights dbl_ext dbl_inp 0 0 = 0" "lweights dbl_ext dbl_inp 1 0 = 0"
    "lweights dbl_ext dbl_inp 2 0 = 0"
    unfolding lweights_def s e by (simp_all add: zero_dbl_def)
  have t: "accu (dJ dbl_inp) (\<lambda>j. lweights dbl_ext dbl_inp j 0) = 0"
    unfolding d accu_def u foldl.simps l by (simp add: zero_dbl_def round_dbl_def dbl_max_def)
  have f: "weights_finite dbl_ext dbl_inp"
    unfolding weights_finite_def d u list.pred_inject e by (simp add: dbl_ext_def)
  have i: "initk dbl_ext dbl_inp 0 0 = 0" "initk dbl_ext dbl_inp 1 0 = 0"
    "initk dbl_ext dbl_inp 2 0 = 0"
    unfolding initk_def reparma_def dJ_def[symmetric] d u list.map l
    by (simp_all add: dbl_inp_def zero_dbl_def round_dbl_def dbl_max_def)
  have ne: "(0::dbl) \<noteq> 1" by (simp add: zero_dbl_def one_dbl_def)
  show ?thesis unfolding d u list.map x e l i using f ne s[unfolded d] t[unfolded d] by simp
qed

text \<open>
  Claim C9. For every block \<open>jj\<close> and every state \<open>s\<close> of that block, the entry \<open>(s, k)\<close>
  of the matrix \<open>initk\<close> is the initial probability of \<open>s\<close> times the mixture weight of
  subject \<open>k\<close> for block \<open>jj\<close>; and a call that returns on the path of finite weights has
  passed this matrix to the forward routine. The block-broadcast \<open>reparma\<close> is modelled
  from the spec.
\<close>

theorem initk_block_broadcast:
  fixes ext :: "'a::{zero,one,plus,minus,uminus,times,inverse} extern"
  assumes "jj < dJ inp"
    and "block_start (numberOfStates inp) jj \<le> s" and "s < cumsumstate (numberOfStates inp) jj"
  shows "initk ext inp s k = initialProbs inp s * lweights ext inp jj k \<and>
     (\<forall>obj grad. objectivex ext inp = Some (obj, grad) \<and> weights_finite ext inp \<longrightarrow>
        internalForwardx ext (eDims inp) (oDims inp) (transitionMatrix inp) (emissionArray inp)
          (initk ext inp) (obsArray inp) \<noteq> None)"
proof -
  from assms have jj: "jj < length (numberOfStates inp)" by (simp add: dJ_def)
  define i where "i = s - block_start (numberOfStates inp) jj"
  have s: "s = block_start (numberOfStates inp) jj + i" and i: "i < numberOfStates inp ! jj"
    using assms(2,3) by (simp_all add: i_def cumsumstate_eq[OF jj])
  have "initk ext inp s k = initialProbs inp s * lweights ext inp jj k"
    unfolding s by (simp add: initk_def reparma_nth[OF jj i])
  moreover have "internalForwardx ext (eDims inp) (oDims inp) (transitionMatrix inp)
      (emissionArray inp) (initk ext inp) (obsArray inp) \<noteq> None"
    if "objectivex ext inp = Some (obj, grad)" "weights_finite ext inp" for obj grad
    using objectivex_normal[OF that] by auto
  ultimately show ?thesis by blast
qed

theorem initk_block_broadcast_witness:
  "(1::nat) < dJ ex_inp \<and> block_start (numberOfStates ex_inp) 1 \<le> 2 \<and>
   2 < cumsumstate (numberOfStates ex_inp) 1 \<and>
   initk ex_ext ex_inp 2 1 = initialProbs ex_inp 2 * lweights ex_ext ex_inp 1 1 \<and>
   initk ex_ext ex_inp 2 1 = 5 / 6 \<and>
   objectivex ex_ext ex_inp = Some (- 8, ex_grad) \<and> weights_finite ex_ext ex_inp \<and>
   internalForwardx ex_ext (eDims ex_inp) (oDims ex_inp) (transitionMatrix ex_inp)
     (emissionArray ex_inp) (initk ex_ext ex_inp) (obsArray ex_inp) \<noteq> None"
proof -
  have h: "(1::nat) < dJ ex_inp" "block_start (numberOfStates ex_inp) 1 \<le> 2"
    "2 < cumsumstate (numberOfStates ex_inp) 1"
    by code_simp+
  have v: "initk ex_ext ex_inp 2 1 = 5 / 6" by code_simp
  have r: "objectivex ex_ext ex_inp = Some (- 8, ex_grad)" by code_simp
  have f: "weights_finite ex_ext ex_inp" by code_simp
  from initk_block_broadcast[OF h, of ex_ext 1] h v r f show ?thesis by blast
qed

section \<open>Independence of the reference column\<close>

text \<open>
  Claim C10. Two inputs that differ only in column 0 of the \<open>q \<times> J\<close> coefficient matrix
  give the same result, be it a value (objective and gradient) or a failure: the function
  works on its own copy \<open>coef\<close> of the coefficients, whose column 0 is zero. The input is
  a value of the embedding, which no definition updates. The theorem holds for every
  number type.
\<close>

theorem coef_column0_irrelevant:
  fixes inp :: "'a::{zero,one,plus,minus,uminus,times,inverse} input"
  assumes "\<forall>i<coefs_nrow inp. \<forall>j<dJ inp. j \<noteq> 0 \<longrightarrow> c' i j = coefs inp i j"
  shows "objectivex ext (inp\<lparr>coefs := c'\<rparr>) = objectivex ext inp"
  by (rule upd_objectivex[OF upd_coef[OF assms]])

theorem coef_column0_irrelevant_witness:
  "objectivex ex_ext (ex_inp\<lparr>coefs := (\<lambda>i j. if j = 0 then 7 else 2)\<rparr>) =
     objectivex ex_ext ex_inp \<and>
   objectivex ex_ext ex_inp = Some (- 8, ex_grad)"
proof -
  have "\<forall>i<coefs_nrow ex_inp. \<forall>j<dJ ex_inp. j \<noteq> 0 \<longrightarrow>
      (\<lambda>i j. if j = 0 then 7 else 2) i j = coefs ex_inp i j"
    by (simp add: ex_inp_def)
  from coef_column0_irrelevant[OF this, of ex_ext]
  have "objectivex ex_ext (ex_inp\<lparr>coefs := (\<lambda>i j. if j = 0 then 7 else 2)\<rparr>) =
     objectivex ex_ext ex_inp" .
  moreover have "objectivex ex_ext ex_inp = Some (- 8, ex_grad)" by code_simp
  ultimately show ?thesis by blast
qed

end
